theory Spec2Isabelle
  imports Complex_Main
begin

section \<open>Python values and library functions used by the two nodes\<close>

text \<open>
  Request bodies, operations and replies are decoded JSON. A decoded object is a Python
  dict: an association list whose keys are distinct. Python's \<open>None\<close> is \<open>JNull\<close>.
  Numbers are integers (floating-point numbers are not modelled); a character is a code
  point below 256.
\<close>

datatype json =
    JNull
  | JBool bool
  | JNum int
  | JStr string
  | JArr "json list"
  | JObj "(string \<times> json) list"

datatype py_error =
    AttributeError
  | TypeError
  | KeyError
  | IndexError
  | ValueError
  | JSONDecodeError
  | URLError
  | HTTPError nat

text \<open>\<open>d.get(k, default)\<close> and \<open>d[k]\<close> for a value that may or may not be a dict.\<close>

definition dict_get :: "json \<Rightarrow> string \<Rightarrow> json \<Rightarrow> py_error + json" where
  "dict_get d k dflt =
     (case d of
        JObj kvs \<Rightarrow> (case map_of kvs k of None \<Rightarrow> Inr dflt | Some v \<Rightarrow> Inr v)
      | _ \<Rightarrow> Inl AttributeError)"

definition subscript :: "json \<Rightarrow> string \<Rightarrow> py_error + json" where
  "subscript d k =
     (case d of
        JObj kvs \<Rightarrow> (case map_of kvs k of None \<Rightarrow> Inl KeyError | Some v \<Rightarrow> Inr v)
      | _ \<Rightarrow> Inl TypeError)"

text \<open>\<open>str.upper()\<close> on the ASCII letters.\<close>

definition upper_char :: "char \<Rightarrow> char" where
  "upper_char c =
     (if 97 \<le> (of_char c :: nat) \<and> (of_char c :: nat) \<le> 122
      then char_of ((of_char c :: nat) - 32) else c)"

definition upper :: "json \<Rightarrow> py_error + string" where
  "upper v = (case v of JStr s \<Rightarrow> Inr (map upper_char s) | _ \<Rightarrow> Inl AttributeError)"

text \<open>Decimal digits of a natural number and of an integer.\<close>

function digits :: "nat \<Rightarrow> string" where
  "digits n =
     (if n < 10 then [char_of (48 + n)] else digits (n div 10) @ [char_of (48 + n mod 10)])"
  by pat_completeness auto
termination
  by (relation "measure id") auto

declare digits.simps [simp del]

definition int_str :: "int \<Rightarrow> string" where
  "int_str i = (if i < 0 then CHR ''-'' # digits (nat (- i)) else digits (nat i))"

definition hex_digit :: "nat \<Rightarrow> char" where
  "hex_digit n = (if n < 10 then char_of (48 + n) else char_of (87 + n))"

definition hex2 :: "char \<Rightarrow> string" where
  "hex2 c = [hex_digit ((of_char c :: nat) div 16), hex_digit ((of_char c :: nat) mod 16)]"

definition join :: "string \<Rightarrow> string list \<Rightarrow> string" where
  "join sep xs = concat (case xs of [] \<Rightarrow> [] | y # ys \<Rightarrow> y # map (\<lambda>z. sep @ z) ys)"

text \<open>
  \<open>repr\<close> of a string: single quotes unless the string has a single quote and no double
  quote; the quote character and the backslash are escaped, as are tab, newline, carriage
  return and the other non-printable code points.
\<close>

definition printable :: "char \<Rightarrow> bool" where
  "printable c =
     (let n = (of_char c :: nat) in 32 \<le> n \<and> n \<noteq> 127 \<and> \<not> (128 \<le> n \<and> n \<le> 160) \<and> n \<noteq> 173)"

definition repr_char :: "char \<Rightarrow> char \<Rightarrow> string" where
  "repr_char quote c =
     (if c = quote \<or> c = CHR 0x5C then [CHR 0x5C, c]
      else if c = CHR 0x09 then [CHR 0x5C, CHR ''t'']
      else if c = CHR 0x0A then [CHR 0x5C, CHR ''n'']
      else if c = CHR 0x0D then [CHR 0x5C, CHR ''r'']
      else if printable c then [c]
      else [CHR 0x5C, CHR ''x''] @ hex2 c)"

definition repr_str :: "string \<Rightarrow> string" where
  "repr_str s =
     (let quote = (if CHR 0x27 \<in> set s \<and> CHR 0x22 \<notin> set s then CHR 0x22 else CHR 0x27)
      in [quote] @ concat (map (repr_char quote) s) @ [quote])"

fun py_repr :: "json \<Rightarrow> string" where
  "py_repr JNull = ''None''"
| "py_repr (JBool b) = (if b then ''True'' else ''False'')"
| "py_repr (JNum i) = int_str i"
| "py_repr (JStr s) = repr_str s"
| "py_repr (JArr xs) = ''['' @ join '', '' (map py_repr xs) @ '']''"
| "py_repr (JObj kvs) =
     ''{'' @ join '', '' (map (\<lambda>(k, v). repr_str k @ '': '' @ py_repr v) kvs) @ ''}''"

text \<open>\<open>str(v)\<close>, which is also what an f-string writes for \<open>{v}\<close>.\<close>

definition py_str :: "json \<Rightarrow> string" where
  "py_str v = (case v of JStr s \<Rightarrow> s | _ \<Rightarrow> py_repr v)"

text \<open>
  \<open>json.dumps\<close> with its defaults: separators \<open>", "\<close> and \<open>": "\<close>, and every character
  outside the printable ASCII range written as an escape.
\<close>

definition dumps_char :: "char \<Rightarrow> string" where
  "dumps_char c =
     (if c = CHR 0x22 then [CHR 0x5C, CHR 0x22]
      else if c = CHR 0x5C then [CHR 0x5C, CHR 0x5C]
      else if c = CHR 0x0A then [CHR 0x5C, CHR ''n'']
      else if c = CHR 0x0D then [CHR 0x5C, CHR ''r'']
      else if c = CHR 0x09 then [CHR 0x5C, CHR ''t'']
      else if c = CHR 0x08 then [CHR 0x5C, CHR ''b'']
      else if c = CHR 0x0C then [CHR 0x5C, CHR ''f'']
      else if 32 \<le> (of_char c :: nat) \<and> (of_char c :: nat) \<le> 126 then [c]
      else [CHR 0x5C, CHR ''u'', CHR ''0'', CHR ''0''] @ hex2 c)"

definition dumps_str :: "string \<Rightarrow> string" where
  "dumps_str s = [CHR 0x22] @ concat (map dumps_char s) @ [CHR 0x22]"

fun json_dumps :: "json \<Rightarrow> string" where
  "json_dumps JNull = ''null''"
| "json_dumps (JBool b) = (if b then ''true'' else ''false'')"
| "json_dumps (JNum i) = int_str i"
| "json_dumps (JStr s) = dumps_str s"
| "json_dumps (JArr xs) = ''['' @ join '', '' (map json_dumps xs) @ '']''"
| "json_dumps (JObj kvs) =
     ''{'' @ join '', '' (map (\<lambda>(k, v). dumps_str k @ '': '' @ json_dumps v) kvs) @ ''}''"

text \<open>
  Dictionary keys. Lists and dicts are unhashable; \<open>True\<close> and \<open>1\<close> (and \<open>False\<close> and
  \<open>0\<close>) are the same key.
\<close>

definition dict_key :: "json \<Rightarrow> py_error + json" where
  "dict_key k =
     (case k of
        JArr _ \<Rightarrow> Inl TypeError
      | JObj _ \<Rightarrow> Inl TypeError
      | JBool b \<Rightarrow> Inr (JNum (if b then 1 else 0))
      | _ \<Rightarrow> Inr k)"

text \<open>
  \<open>str.strip()\<close>, \<open>str.rstrip("\n")\<close>, \<open>str.split(" ", n)\<close>, and the lines a text file
  yields when it is read with universal newlines.
\<close>

definition is_space :: "char \<Rightarrow> bool" where
  "is_space c =
     (let n = (of_char c :: nat)
      in (9 \<le> n \<and> n \<le> 13) \<or> (28 \<le> n \<and> n \<le> 32) \<or> n = 133 \<or> n = 160)"


definition rstrip_nl :: "string \<Rightarrow> string" where
  "rstrip_nl s = rev (dropWhile (\<lambda>c. c = CHR 0x0A) (rev s))"

fun split_sp :: "nat \<Rightarrow> string \<Rightarrow> string \<Rightarrow> string list" where
  "split_sp n acc [] = [acc]"
| "split_sp 0 acc (c # cs) = [acc @ c # cs]"
| "split_sp (Suc n) acc (c # cs) =
     (if c = CHR '' '' then acc # split_sp n [] cs else split_sp (Suc n) (acc @ [c]) cs)"

definition split :: "string \<Rightarrow> nat \<Rightarrow> string list" where
  "split s n = split_sp n [] s"

fun file_lines :: "bool \<Rightarrow> string \<Rightarrow> string \<Rightarrow> string list" where
  "file_lines cr acc [] = (if acc = [] then [] else [acc])"
| "file_lines cr acc (c # cs) =
     (if c = CHR 0x0A then (if cr then file_lines False [] cs else acc # file_lines False [] cs)
      else if c = CHR 0x0D then acc # file_lines True [] cs
      else file_lines False (acc @ [c]) cs)"

text \<open>
  The flag of \<open>file_lines\<close> says that the previous character was a carriage return,
  whose line has been closed already: a line feed right after it closes no second line.
\<close>

text \<open>Sequencing of a computation that may raise.\<close>

definition attempt :: "py_error + 'a \<Rightarrow> ('a \<Rightarrow> py_error + 'b) \<Rightarrow> py_error + 'b" where
  "attempt m f = (case m of Inl e \<Rightarrow> Inl e | Inr x \<Rightarrow> f x)"

section \<open>The participant (participant.py)\<close>

text \<open>
  The module's globals \<open>kv\<close>, \<open>TX\<close> and \<open>WAL_PATH\<close> form the state of a participant,
  together with the lines of its WAL file and, in program order, the effects a handler has
  on the outside: a line appended to the WAL (written, flushed and fsynced) and an HTTP
  reply sent. Requests are handled one at a time. A transaction record is a dict with the
  keys \<open>state\<close>, \<open>op\<close> and, unless \<open>/abort\<close> made it, \<open>ts\<close>.
\<close>

datatype pstate = READY | PRECOMMIT | COMMITTED | ABORTED

record tx_rec =
  state :: pstate
  op :: json
  ts :: "real option"

datatype effect = Fsync string | Reply nat json

record participant =
  kv :: "string \<rightharpoonup> string"
  TX :: "json \<rightharpoonup> tx_rec"
  WAL_PATH :: "string option"
  wal :: "string list"
  effects :: "effect list"

definition wal_append :: "string \<Rightarrow> participant \<Rightarrow> participant" where
  "wal_append line st =
     (if WAL_PATH st = None \<or> WAL_PATH st = Some [] then st
      else st\<lparr>wal := wal st @ file_lines False [] (rstrip_nl line @ [CHR 0x0A]),
              effects := effects st @ [Fsync (rstrip_nl line)]\<rparr>)"

definition validate_op :: "json \<Rightarrow> py_error + bool" where
  "validate_op opn =
     attempt (dict_get opn ''type'' (JStr [])) (\<lambda>t.
     attempt (upper t) (\<lambda>u. Inr (u = ''SET'')))"

definition apply_op :: "json \<Rightarrow> (string \<rightharpoonup> string) \<Rightarrow> py_error + (string \<rightharpoonup> string)" where
  "apply_op opn m =
     attempt (subscript opn ''type'') (\<lambda>t.
     attempt (upper t) (\<lambda>u.
       if u = ''SET'' then
         attempt (subscript opn ''value'') (\<lambda>v.
         attempt (subscript opn ''key'') (\<lambda>k. Inr (m(py_str k \<mapsto> py_str v))))
       else Inr m))"

definition send :: "nat \<Rightarrow> json \<Rightarrow> participant \<Rightarrow> (py_error + nat \<times> json) \<times> participant" where
  "send code obj st = (Inr (code, obj), st\<lparr>effects := effects st @ [Reply code obj]\<rparr>)"

definition vote_of :: "bool \<Rightarrow> string" where
  "vote_of ok = (if ok then ''YES'' else ''NO'')"

definition post_prepare ::
  "json \<Rightarrow> json \<Rightarrow> real \<Rightarrow> participant \<Rightarrow> (py_error + nat \<times> json) \<times> participant" where
  "post_prepare txid body now st =
     (case subscript body ''op'' of Inl e \<Rightarrow> (Inl e, st) | Inr opn \<Rightarrow>
      case validate_op opn of Inl e \<Rightarrow> (Inl e, st) | Inr ok \<Rightarrow>
      case dict_key txid of Inl e \<Rightarrow> (Inl e, st) | Inr k \<Rightarrow>
        send 200 (JObj [(''vote'', JStr (vote_of ok))])
          (wal_append (py_str txid @ '' PREPARE '' @ vote_of ok @ '' '' @ json_dumps opn)
            (st\<lparr>TX := (TX st)(k \<mapsto>
               \<lparr>state = (if vote_of ok = ''YES'' then READY else ABORTED),
                op = opn, ts = Some now\<rparr>)\<rparr>)))"

definition post_commit ::
  "json \<Rightarrow> participant \<Rightarrow> (py_error + nat \<times> json) \<times> participant" where
  "post_commit txid st =
     (case dict_key txid of Inl e \<Rightarrow> (Inl e, st) | Inr k \<Rightarrow>
      case TX st k of None \<Rightarrow> (Inl TypeError, st) | Some r \<Rightarrow>
      case apply_op (op r) (kv st) of Inl e \<Rightarrow> (Inl e, st) | Inr m \<Rightarrow>
        send 200 (JObj [(''ok'', JBool True)])
          (wal_append (py_str txid @ '' COMMIT'')
            (st\<lparr>kv := m, TX := (TX st)(k \<mapsto> r\<lparr>state := COMMITTED\<rparr>)\<rparr>)))"

definition post_abort ::
  "json \<Rightarrow> participant \<Rightarrow> (py_error + nat \<times> json) \<times> participant" where
  "post_abort txid st =
     (case dict_key txid of Inl e \<Rightarrow> (Inl e, st) | Inr k \<Rightarrow>
        send 200 (JObj [(''ok'', JBool True)])
          (wal_append (py_str txid @ '' ABORT'')
            (st\<lparr>TX := (TX st)(k \<mapsto> \<lparr>state = ABORTED, op = JNull, ts = None\<rparr>)\<rparr>)))"

definition post_can_commit ::
  "json \<Rightarrow> json \<Rightarrow> real \<Rightarrow> participant \<Rightarrow> (py_error + nat \<times> json) \<times> participant" where
  "post_can_commit txid body now st =
     (case subscript body ''op'' of Inl e \<Rightarrow> (Inl e, st) | Inr opn \<Rightarrow>
      case validate_op opn of Inl e \<Rightarrow> (Inl e, st) | Inr ok \<Rightarrow>
      case dict_key txid of Inl e \<Rightarrow> (Inl e, st) | Inr k \<Rightarrow>
        send 200 (JObj [(''vote'', JStr (vote_of ok))])
          (wal_append (py_str txid @ '' CAN_COMMIT '' @ vote_of ok @ '' '' @ json_dumps opn)
            (st\<lparr>TX := (TX st)(k \<mapsto> \<lparr>state = READY, op = opn, ts = Some now\<rparr>)\<rparr>)))"

definition post_precommit ::
  "json \<Rightarrow> participant \<Rightarrow> (py_error + nat \<times> json) \<times> participant" where
  "post_precommit txid st =
     (case dict_key txid of Inl e \<Rightarrow> (Inl e, st) | Inr k \<Rightarrow>
      case TX st k of None \<Rightarrow> (Inl KeyError, st) | Some r \<Rightarrow>
        send 200 (JObj [(''ok'', JBool True)])
          (wal_append (py_str txid @ '' PRECOMMIT'')
            (st\<lparr>TX := (TX st)(k \<mapsto> r\<lparr>state := PRECOMMIT\<rparr>)\<rparr>)))"

text \<open>
  \<open>Handler.do_POST\<close>: the request path, the decoded body (\<open>{}\<close> when the request has
  none) and the reading of the clock. The result is the reply sent, or the exception that
  leaves the handler, in which case no reply is sent.
\<close>

definition do_POST ::
  "string \<Rightarrow> json \<Rightarrow> real \<Rightarrow> participant \<Rightarrow> (py_error + nat \<times> json) \<times> participant" where
  "do_POST path body now st =
     (case dict_get body ''txid'' JNull of Inl e \<Rightarrow> (Inl e, st) | Inr txid \<Rightarrow>
        if path = ''/prepare'' then post_prepare txid body now st
        else if path = ''/commit'' then post_commit txid st
        else if path = ''/abort'' then post_abort txid st
        else if path = ''/can_commit'' then post_can_commit txid body now st
        else if path = ''/precommit'' then post_precommit txid st
        else send 404 (JObj [(''error'', JStr ''not found'')]) st)"





text \<open>
  A participant process as \<open>main\<close> starts it: empty tables, \<open>WAL_PATH = args.wal or None\<close>,
  and the WAL file as it was left on disk.
\<close>

definition boot :: "string \<Rightarrow> string list \<Rightarrow> participant" where
  "boot wal_arg file =
     \<lparr>kv = Map.empty, TX = Map.empty,
      WAL_PATH = (if wal_arg = [] then None else Some wal_arg),
      wal = file, effects = []\<rparr>"

section \<open>The coordinator (coordinator.py) and the nodes it talks to\<close>

text \<open>
  The coordinator's globals: \<open>PARTICIPANTS\<close>, its own \<open>TX\<close> table and \<open>WAL_PATH\<close>, with
  the lines of its WAL file. A dict written key by key is an association list updated in
  place, which keeps the order of insertion. The table is such a dict, from the keys of
  the transaction identifiers to the records, each the dict the code builds, kept as JSON.
\<close>

record coordinator =
  PARTICIPANTS :: "string list"
  TX_c :: "(json \<times> json) list"
  WAL_PATH_c :: "string option"
  wal_c :: "string list"

fun dict_set :: "('k \<times> 'v) list \<Rightarrow> 'k \<Rightarrow> 'v \<Rightarrow> ('k \<times> 'v) list" where
  "dict_set [] k v = [(k, v)]"
| "dict_set ((k', v') # kvs) k v =
     (if k' = k then (k, v) # kvs else (k', v') # dict_set kvs k v)"

text \<open>
  The world a call of the coordinator runs in: the coordinator, the participant process
  behind each base URL, what the network does to each of the coming calls, the clock of
  the participants, and the trace of what has been observed. A call is delivered and
  answered, delivered with the reply lost or later than \<open>TIMEOUT_S\<close>, or not delivered; when
  the list of outcomes is used up, calls are delivered. The trace holds the lines the
  coordinator appends to its WAL and the calls it makes: for a call, the participant's
  own result and its state after handling the request when the request was delivered, and
  what \<open>post_json\<close> gave the coordinator.
\<close>

datatype net_outcome = Delivered | ReplyLost | Dropped

datatype event =
    WalAppend string
  | Rpc string string json "((py_error + nat \<times> json) \<times> participant) option"
      "py_error + nat \<times> json"

record world =
  coord :: coordinator
  nodes :: "string \<rightharpoonup> participant"
  net :: "net_outcome list"
  clock :: "nat \<Rightarrow> real"
  ticks :: nat
  trace :: "event list"


definition RETRY_INTERVAL :: nat where
  "RETRY_INTERVAL = 3"

text \<open>
  \<open>post_json(p + path, payload)\<close>: the request reaches the participant with base URL
  \<open>p\<close> under the request path \<open>path\<close>. \<open>urlopen\<close> raises when there is no reply within
  the timeout, when the participant's handler raised and so closed the connection without
  a reply, and when the status of the reply is not a success.
\<close>

definition post_json ::
  "string \<Rightarrow> string \<Rightarrow> json \<Rightarrow> world \<Rightarrow> (py_error + nat \<times> json) \<times> world" where
  "post_json p path payload w =
     (let outcome = (case net w of [] \<Rightarrow> Delivered | x # xs \<Rightarrow> x);
          w0 = w\<lparr>net := tl (net w)\<rparr>
      in case (if outcome = Dropped then None else nodes w p) of
           None \<Rightarrow>
             (Inl URLError, w0\<lparr>trace := trace w @ [Rpc p path payload None (Inl URLError)]\<rparr>)
         | Some st \<Rightarrow>
             (let handled = do_POST path payload (clock w (ticks w)) st;
                  res = (if outcome = ReplyLost then Inl URLError
                         else case fst handled of
                                Inl e \<Rightarrow> Inl URLError
                              | Inr (code, obj) \<Rightarrow>
                                  if 200 \<le> code \<and> code < 300 then Inr (code, obj)
                                  else Inl (HTTPError code))
              in (res, w0\<lparr>nodes := (nodes w)(p \<mapsto> snd handled), ticks := Suc (ticks w),
                          trace := trace w @ [Rpc p path payload (Some handled) res]\<rparr>)))"

definition wal_append_c :: "string \<Rightarrow> world \<Rightarrow> world" where
  "wal_append_c line w =
     (if WAL_PATH_c (coord w) = None \<or> WAL_PATH_c (coord w) = Some [] then w
      else w\<lparr>coord := (coord w)\<lparr>wal_c :=
                wal_c (coord w) @ file_lines False [] (line @ [CHR 0x0A])\<rparr>,
             trace := trace w @ [WalAppend line]\<rparr>)"

text \<open>
  The first loop of \<open>two_pc\<close> and of \<open>three_pc\<close>, which differ in the path only: the body
  of the \<open>try\<close>, and the \<open>except\<close> branch for whatever was raised in it.
\<close>

definition record_vote ::
  "py_error + nat \<times> json \<Rightarrow> py_error + json" where
  "record_vote r = (case r of Inl e \<Rightarrow> Inl e | Inr (code, resp) \<Rightarrow> dict_get resp ''vote'' (JStr ''NO''))"

fun vote_loop ::
  "string \<Rightarrow> json \<Rightarrow> json \<Rightarrow> string list \<Rightarrow> (string \<times> json) list \<times> bool \<Rightarrow> world
     \<Rightarrow> ((string \<times> json) list \<times> bool) \<times> world" where
  "vote_loop path txid opn [] (votes, all_yes) w = ((votes, all_yes), w)"
| "vote_loop path txid opn (p # ps) (votes, all_yes) w =
     (case post_json p path (JObj [(''txid'', txid), (''op'', opn)]) w of (r, w1) \<Rightarrow>
      case record_vote r of
        Inr vote \<Rightarrow>
          vote_loop path txid opn ps
            (dict_set votes p vote, (if vote \<noteq> JStr ''YES'' then False else all_yes)) w1
      | Inl e \<Rightarrow>
          vote_loop path txid opn ps (dict_set votes p (JStr ''NO_TIMEOUT''), False) w1)"

text \<open>The loops that send \<open>{"txid": txid}\<close> to every participant and ignore failures.\<close>

fun send_all :: "string \<Rightarrow> json \<Rightarrow> string list \<Rightarrow> world \<Rightarrow> world" where
  "send_all path txid [] w = w"
| "send_all path txid (p # ps) w =
     send_all path txid ps (snd (post_json p path (JObj [(''txid'', txid)]) w))"

definition finish ::
  "string \<Rightarrow> json \<Rightarrow> string \<Rightarrow> (string \<times> json) list \<Rightarrow> world \<Rightarrow> (py_error + json) \<times> world" where
  "finish protocol txid decision votes w =
     (case dict_key txid of
        Inl e \<Rightarrow> (Inl e, w)
      | Inr k \<Rightarrow>
          (Inr (JObj [(''txid'', txid), (''decision'', JStr decision), (''votes'', JObj votes)]),
           w\<lparr>coord := (coord w)\<lparr>TX_c := dict_set (TX_c (coord w)) k
                (JObj [(''txid'', txid), (''protocol'', JStr protocol),
                       (''decision'', JStr decision), (''votes'', JObj votes),
                       (''state'', JStr ''DONE'')])\<rparr>\<rparr>))"

definition two_pc :: "json \<Rightarrow> json \<Rightarrow> world \<Rightarrow> (py_error + json) \<times> world" where
  "two_pc txid opn w =
     (case vote_loop ''/prepare'' txid opn (PARTICIPANTS (coord w)) ([], True) w of
        ((votes, all_yes), w1) \<Rightarrow>
          (let decision = (if all_yes then ''COMMIT'' else ''ABORT'');
               w2 = wal_append_c (py_str txid @ '' DECISION '' @ decision) w1;
               endpoint = (if decision = ''COMMIT'' then ''/commit'' else ''/abort'');
               w3 = send_all endpoint txid (PARTICIPANTS (coord w2)) w2
           in finish ''2PC'' txid decision votes w3))"

definition three_pc :: "json \<Rightarrow> json \<Rightarrow> world \<Rightarrow> (py_error + json) \<times> world" where
  "three_pc txid opn w =
     (case vote_loop ''/can_commit'' txid opn (PARTICIPANTS (coord w)) ([], True) w of
        ((votes, all_yes), w1) \<Rightarrow>
          (let w1' = (if \<not> all_yes then w1
                      else send_all ''/precommit'' txid (PARTICIPANTS (coord w1)) w1);
               decision = (if \<not> all_yes then ''ABORT'' else ''COMMIT'');
               w2 = wal_append_c (py_str txid @ '' DECISION '' @ decision) w1';
               endpoint = (if decision = ''COMMIT'' then ''/commit'' else ''/abort'');
               w3 = send_all endpoint txid (PARTICIPANTS (coord w2)) w2
           in finish ''3PC'' txid decision votes w3))"

text \<open>
  The coordinator's \<open>Handler.do_POST\<close>; the reply it sends is the result.
\<close>

definition do_POST_c :: "string \<Rightarrow> json \<Rightarrow> world \<Rightarrow> (py_error + nat \<times> json) \<times> world" where
  "do_POST_c path body w =
     (if path = ''/tx/start'' then
        (case subscript body ''txid'' of Inl e \<Rightarrow> (Inl e, w) | Inr txid \<Rightarrow>
         case subscript body ''op'' of Inl e \<Rightarrow> (Inl e, w) | Inr opn \<Rightarrow>
         case attempt (dict_get body ''protocol'' (JStr ''2PC'')) upper of
           Inl e \<Rightarrow> (Inl e, w)
         | Inr protocol \<Rightarrow>
             (case (if protocol = ''3PC'' then three_pc txid opn w else two_pc txid opn w) of
                (Inl e, w') \<Rightarrow> (Inl e, w')
              | (Inr result, w') \<Rightarrow> (Inr (200, result), w')))
      else (Inr (404, JObj []), w))"

text \<open>
  \<open>retry_loop\<close>. One pass takes the records of the table in order and, for each record
  whose decision is \<open>COMMIT\<close> or \<open>ABORT\<close>, sends that decision for the record's \<open>txid\<close> to
  every participant, ignoring failures; a record without \<open>txid\<close> makes every attempt raise
  \<open>KeyError\<close>, which is ignored too. A record that is no dict makes \<open>rec.get\<close> raise, which
  ends the thread. The loop sleeps \<open>RETRY_INTERVAL\<close> seconds before each pass and does not
  return otherwise: \<open>retry_loop n\<close> is its first \<open>n\<close> passes.
\<close>

definition retry_record :: "json \<Rightarrow> world \<Rightarrow> py_error + world" where
  "retry_record rec w =
     (case dict_get rec ''decision'' JNull of
        Inl e \<Rightarrow> Inl e
      | Inr decision \<Rightarrow>
          if decision \<noteq> JStr ''COMMIT'' \<and> decision \<noteq> JStr ''ABORT'' then Inr w
          else
            (case subscript rec ''txid'' of
               Inl e \<Rightarrow> Inr w
             | Inr txid \<Rightarrow>
                 Inr (send_all (if decision = JStr ''COMMIT'' then ''/commit'' else ''/abort'')
                        txid (PARTICIPANTS (coord w)) w)))"

fun retry_records :: "json list \<Rightarrow> world \<Rightarrow> py_error option \<times> world" where
  "retry_records [] w = (None, w)"
| "retry_records (rec # recs) w =
     (case retry_record rec w of
        Inl e \<Rightarrow> (Some e, w)
      | Inr w' \<Rightarrow> retry_records recs w')"

definition retry_pass :: "world \<Rightarrow> py_error option \<times> world" where
  "retry_pass w = retry_records (map snd (TX_c (coord w))) w"

fun retry_loop :: "nat \<Rightarrow> world \<Rightarrow> world" where
  "retry_loop 0 w = w"
| "retry_loop (Suc n) w =
     (case retry_pass w of
        (Some e, w') \<Rightarrow> w'
      | (None, w') \<Rightarrow> retry_loop n w')"

section \<open>Observations and example data\<close>

text \<open>
  The record a participant holds for the transaction a request body names: what
  \<open>TX.get(body.get("txid"))\<close> gives, and nothing when that lookup raises.
\<close>

definition record_of :: "json \<Rightarrow> participant \<Rightarrow> tx_rec option" where
  "record_of body st =
     (case dict_get body ''txid'' JNull of Inl e \<Rightarrow> None | Inr txid \<Rightarrow>
      case dict_key txid of Inl e \<Rightarrow> None | Inr k \<Rightarrow> TX st k)"

text \<open>A record without its timestamp.\<close>

definition untimed :: "tx_rec \<Rightarrow> pstate \<times> json" where
  "untimed r = (state r, op r)"

definition same_tables :: "participant \<Rightarrow> participant \<Rightarrow> bool" where
  "same_tables s t = (kv s = kv t \<and> map_option untimed \<circ> TX s = map_option untimed \<circ> TX t)"

definition is_dict :: "json \<Rightarrow> bool" where
  "is_dict v = (case v of JObj kvs \<Rightarrow> True | _ \<Rightarrow> False)"

text \<open>Example operations and requests.\<close>

definition op_set :: json where
  "op_set = JObj [(''type'', JStr ''SET''), (''key'', JStr ''x''), (''value'', JStr ''1'')]"

definition op_del :: json where
  "op_del = JObj [(''type'', JStr ''DEL''), (''key'', JStr ''x'')]"

definition request :: "string \<Rightarrow> json \<Rightarrow> json" where
  "request t opn = JObj [(''txid'', JStr t), (''op'', opn)]"

text \<open>The participant after a request, and the state of the transaction a body names.\<close>

definition after :: "string \<Rightarrow> json \<Rightarrow> real \<Rightarrow> participant \<Rightarrow> participant" where
  "after path body now st = snd (do_POST path body now st)"

definition state_of :: "json \<Rightarrow> participant \<Rightarrow> pstate option" where
  "state_of body st = map_option state (record_of body st)"



definition plain_text :: "string \<Rightarrow> bool" where
  "plain_text l = list_all (\<lambda>c. \<not> is_space c \<or> c = CHR '' '') l"







text \<open>
  Observations on a run of the coordinator. The state a participant holds for a
  transaction; for an event of the trace, the path of the call, the state the participant
  reached for the transaction when it handled the call, and the path of a call for the
  transaction (its body names the transaction, by an identifier with the same key) that
  the participant acknowledged with status 200.
\<close>

definition tx_state :: "json \<Rightarrow> participant \<Rightarrow> pstate option" where
  "tx_state txid st = state_of (JObj [(''txid'', txid)]) st"

fun rpc_path :: "event \<Rightarrow> string option" where
  "rpc_path (WalAppend l) = None"
| "rpc_path (Rpc p path payload h res) = Some path"

fun rpc_node :: "event \<Rightarrow> string option" where
  "rpc_node (WalAppend l) = None"
| "rpc_node (Rpc p path payload h res) = Some p"

fun rpc_result :: "event \<Rightarrow> (py_error + nat \<times> json) option" where
  "rpc_result (WalAppend l) = None"
| "rpc_result (Rpc p path payload h res) = Some res"

fun reached :: "json \<Rightarrow> event \<Rightarrow> pstate option" where
  "reached txid (WalAppend l) = None"
| "reached txid (Rpc p path payload h res) =
     (case h of None \<Rightarrow> None | Some (r, st') \<Rightarrow> tx_state txid st')"

definition names_tx :: "json \<Rightarrow> json \<Rightarrow> bool" where
  "names_tx txid payload =
     (case dict_get payload ''txid'' JNull of
        Inr t \<Rightarrow> dict_key t = dict_key txid
      | Inl e \<Rightarrow> False)"

fun acked :: "json \<Rightarrow> event \<Rightarrow> string option" where
  "acked txid (WalAppend l) = None"
| "acked txid (Rpc p path payload h res) =
     (case h of
        Some (Inr (code, obj), st') \<Rightarrow>
          if code = 200 \<and> names_tx txid payload then Some path else None
      | _ \<Rightarrow> None)"

text \<open>
  An event agrees with the decision \<open>d\<close> on a transaction: a terminal state reached is
  the one of \<open>d\<close>, and an acknowledged \<open>/commit\<close> or \<open>/abort\<close> is the one of \<open>d\<close>.
\<close>

definition agrees :: "string \<Rightarrow> json \<Rightarrow> event \<Rightarrow> bool" where
  "agrees d txid e =
     ((reached txid e = Some COMMITTED \<longrightarrow> d = ''COMMIT'') \<and>
      (reached txid e = Some ABORTED \<longrightarrow> d = ''ABORT'') \<and>
      (acked txid e = Some ''/commit'' \<longrightarrow> d = ''COMMIT'') \<and>
      (acked txid e = Some ''/abort'' \<longrightarrow> d = ''ABORT''))"

text \<open>The vote token the coordinator records for the outcome of a call.\<close>

definition recorded :: "py_error + nat \<times> json \<Rightarrow> json" where
  "recorded r = (case record_vote r of Inr vote \<Rightarrow> vote | Inl e \<Rightarrow> JStr ''NO_TIMEOUT'')"

text \<open>
  No participant holds a record for the transaction, and the coordinator's table holds no
  record for it: every record there is for a transaction with another key, or has no
  \<open>txid\<close>.
\<close>

definition fresh :: "json \<Rightarrow> world \<Rightarrow> bool" where
  "fresh txid w = (\<forall>p st. nodes w p = Some st \<longrightarrow> tx_state txid st = None)"

definition other_record :: "json \<Rightarrow> json \<Rightarrow> bool" where
  "other_record txid rec =
     (case subscript rec ''txid'' of Inr t \<Rightarrow> dict_key t \<noteq> dict_key txid | Inl e \<Rightarrow> True)"

definition unknown_to_coordinator :: "json \<Rightarrow> world \<Rightarrow> bool" where
  "unknown_to_coordinator txid w = list_all (other_record txid) (map snd (TX_c (coord w)))"

text \<open>
  A participant does not hold the transaction in the terminal state opposite to the
  decision \<open>d\<close>. A record of the coordinator's table is for another transaction, or is
  the record of this one with the decision \<open>d\<close>.
\<close>

definition settled :: "string \<Rightarrow> json \<Rightarrow> participant \<Rightarrow> bool" where
  "settled d txid st =
     (tx_state txid st \<noteq> Some (if d = ''COMMIT'' then ABORTED else COMMITTED))"

definition record_ok :: "string \<Rightarrow> json \<Rightarrow> json \<Rightarrow> bool" where
  "record_ok d txid rec =
     (other_record txid rec \<or>
      (subscript rec ''txid'' = Inr txid \<and> dict_get rec ''decision'' JNull = Inr (JStr d)))"

text \<open>The decision and the votes in the result of a protocol run.\<close>

definition result_of :: "json \<Rightarrow> string \<Rightarrow> (string \<times> json) list \<Rightarrow> json" where
  "result_of txid d votes =
     JObj [(''txid'', txid), (''decision'', JStr d), (''votes'', JObj votes)]"

text \<open>An example world: two participants with their WALs, and a coordinator with its WAL.\<close>

definition world0 :: world where
  "world0 =
     \<lparr>coord = \<lparr>PARTICIPANTS = [''http://p1:8001'', ''http://p2:8002''], TX_c = [],
               WAL_PATH_c = Some ''/tmp/coord.wal'', wal_c = []\<rparr>,
      nodes = [''http://p1:8001'' \<mapsto> boot ''p1.wal'' [], ''http://p2:8002'' \<mapsto> boot ''p2.wal'' []],
      net = [], clock = (\<lambda>n. real n), ticks = 0, trace = []\<rparr>"

text \<open>
  While the votes are collected, no participant has committed the transaction, and none
  has aborted it unless some vote recorded so far is not \<open>YES\<close>; the same for the states
  reached in the events, none of which acknowledges a decision.
\<close>

definition undecided :: "json \<Rightarrow> bool \<Rightarrow> participant \<Rightarrow> bool" where
  "undecided txid all_yes st =
     (tx_state txid st \<noteq> Some COMMITTED \<and> (tx_state txid st = Some ABORTED \<longrightarrow> \<not> all_yes))"

definition undecided_event :: "json \<Rightarrow> bool \<Rightarrow> event \<Rightarrow> bool" where
  "undecided_event txid all_yes e =
     (reached txid e \<noteq> Some COMMITTED \<and> (reached txid e = Some ABORTED \<longrightarrow> \<not> all_yes) \<and>
      acked txid e \<noteq> Some ''/commit'' \<and> acked txid e \<noteq> Some ''/abort'')"

text \<open>
  \<open>Start(txid, op, protocol)\<close>: the request \<open>POST /tx/start\<close> with these fields, the
  protocol being optional; and the path of the first phase of the protocol it selects.
\<close>

definition start ::
  "json \<Rightarrow> json \<Rightarrow> string option \<Rightarrow> world \<Rightarrow> (py_error + nat \<times> json) \<times> world" where
  "start txid opn protocol w =
     do_POST_c ''/tx/start''
       (JObj ([(''txid'', txid), (''op'', opn)] @
              (case protocol of None \<Rightarrow> [] | Some s \<Rightarrow> [(''protocol'', JStr s)]))) w"

definition vote_path :: "string option \<Rightarrow> string" where
  "vote_path protocol =
     (if map_option (map upper_char) protocol = Some ''3PC'' then ''/can_commit'' else ''/prepare'')"

definition decision_path :: "string \<Rightarrow> string" where
  "decision_path d = (if d = ''COMMIT'' then ''/commit'' else ''/abort'')"



text \<open>The line of an event that is an append to the coordinator's WAL.\<close>

fun wal_line :: "event \<Rightarrow> string option" where
  "wal_line (WalAppend l) = Some l"
| "wal_line (Rpc p path payload h res) = None"

section \<open>Facts about the participant's handlers\<close>


lemma apply_op_twice:
  "apply_op opn m = Inr m' \<Longrightarrow> apply_op opn m' = Inr m'"
  by (auto simp: apply_op_def attempt_def split: sum.splits if_splits)

lemma kv_wal_append [simp]: "kv (wal_append l st) = kv st"
  by (simp add: wal_append_def)

lemma TX_wal_append [simp]: "TX (wal_append l st) = TX st"
  by (simp add: wal_append_def)

lemma kv_send [simp]: "kv (snd (send c obj st)) = kv st"
  by (simp add: send_def)

lemma TX_send [simp]: "TX (snd (send c obj st)) = TX st"
  by (simp add: send_def)

lemma fst_send [simp]: "fst (send c obj st) = Inr (c, obj)"
  by (simp add: send_def)






subsection \<open>Frame of the key-value store\<close>


subsection \<open>Repeating a request\<close>

lemma same_tables_refl [simp]: "same_tables s s"
  by (simp add: same_tables_def)

lemma same_tables_effects [simp]:
  "same_tables (s\<lparr>effects := e\<rparr>) (t\<lparr>effects := e'\<rparr>) = same_tables s t"
  by (simp add: same_tables_def)

lemma prepare_twice:
  "same_tables (snd (post_prepare txid body n2 (snd (post_prepare txid body n1 st))))
     (snd (post_prepare txid body n1 st))"
  by (simp add: post_prepare_def same_tables_def untimed_def fun_eq_iff split: sum.split)

lemma can_commit_twice:
  "same_tables (snd (post_can_commit txid body n2 (snd (post_can_commit txid body n1 st))))
     (snd (post_can_commit txid body n1 st))"
  by (simp add: post_can_commit_def same_tables_def untimed_def fun_eq_iff split: sum.split)

lemma abort_twice:
  "same_tables (snd (post_abort txid (snd (post_abort txid st)))) (snd (post_abort txid st))"
  by (simp add: post_abort_def same_tables_def untimed_def fun_eq_iff split: sum.split)

lemma precommit_twice:
  "same_tables (snd (post_precommit txid (snd (post_precommit txid st))))
     (snd (post_precommit txid st))"
  by (simp add: post_precommit_def same_tables_def untimed_def fun_eq_iff
      split: sum.split option.split)

lemma commit_twice:
  "same_tables (snd (post_commit txid (snd (post_commit txid st)))) (snd (post_commit txid st))"
proof (cases "dict_key txid")
  case (Inl e)
  then show ?thesis by (simp add: post_commit_def)
next
  case (Inr k)
  show ?thesis
  proof (cases "TX st k")
    case None
    then show ?thesis using Inr by (simp add: post_commit_def)
  next
    case (Some r)
    show ?thesis
    proof (cases "apply_op (op r) (kv st)")
      case (Inl e)
      then show ?thesis using Inr Some by (simp add: post_commit_def)
    next
      case (Inr m)
      then have "apply_op (op r) m = Inr m" by (rule apply_op_twice)
      then show ?thesis using Inr \<open>dict_key txid = Inr k\<close> Some
        by (simp add: post_commit_def same_tables_def untimed_def fun_eq_iff)
    qed
  qed
qed

lemma do_POST_twice:
  "same_tables (snd (do_POST path body now2 (snd (do_POST path body now1 st))))
     (snd (do_POST path body now1 st))"
proof (cases "dict_get body ''txid'' JNull")
  case (Inl e)
  then show ?thesis by (simp add: do_POST_def)
next
  case (Inr txid)
  then show ?thesis
    by (simp add: do_POST_def prepare_twice can_commit_twice abort_twice precommit_twice
        commit_twice send_def)
qed

text \<open>
  C7. For every request path, so for each of the five endpoints, and every body: handling
  the request twice leaves the same key-value store and, for every transaction, the same
  state and operation as handling it once. (The timestamp of the record is the clock
  reading of the last request.)
\<close>

theorem endpoint_idempotent:
  "kv (snd (do_POST path body now2 (snd (do_POST path body now1 st)))) =
     kv (snd (do_POST path body now1 st)) \<and>
   (\<forall>k. map_option state (TX (snd (do_POST path body now2 (snd (do_POST path body now1 st)))) k) =
        map_option state (TX (snd (do_POST path body now1 st)) k)) \<and>
   (\<forall>k. map_option op (TX (snd (do_POST path body now2 (snd (do_POST path body now1 st)))) k) =
        map_option op (TX (snd (do_POST path body now1 st)) k))"
proof -
  let ?s1 = "snd (do_POST path body now1 st)"
  let ?s2 = "snd (do_POST path body now2 ?s1)"
  have st: "same_tables ?s2 ?s1" by (rule do_POST_twice)
  then have k: "kv ?s2 = kv ?s1" by (simp add: same_tables_def)
  have u: "map_option untimed (TX ?s2 k) = map_option untimed (TX ?s1 k)" for k
    using st by (simp add: same_tables_def fun_eq_iff)
  have a: "map_option state (TX ?s2 k) = map_option state (TX ?s1 k)" for k
    using u [of k] by (cases "TX ?s2 k"; cases "TX ?s1 k"; simp add: untimed_def)
  have b: "map_option op (TX ?s2 k) = map_option op (TX ?s1 k)" for k
    using u [of k] by (cases "TX ?s2 k"; cases "TX ?s1 k"; simp add: untimed_def)
  show ?thesis using k a b by blast
qed

subsection \<open>Evaluating the examples\<close>

lemmas post_defs = do_POST_def post_prepare_def post_commit_def post_abort_def
  post_can_commit_def post_precommit_def send_def wal_append_def

lemmas py_defs = dict_get_def subscript_def upper_def upper_char_def dict_key_def
  validate_op_def apply_op_def attempt_def py_str_def

lemmas example_defs = op_set_def op_del_def request_def boot_def record_of_def
  after_def state_of_def vote_of_def

subsection \<open>Validation\<close>





subsection \<open>An operation that fails validation\<close>

text \<open>
  C4. For the operation \<open>{"type": "DEL", "key": "x"}\<close>, which fails validation,
  \<open>/can_commit\<close> replies \<open>{"vote": "NO"}\<close> and leaves the record of the transaction in
  state \<open>READY\<close>, where \<open>/prepare\<close> replies the same and leaves it in state \<open>ABORTED\<close>.
\<close>

theorem can_commit_invalid_op_ready:
  "fst (do_POST ''/can_commit'' (request ''t1'' op_del) 0 (boot ''p1.wal'' [])) =
     Inr (200, JObj [(''vote'', JStr ''NO'')]) \<and>
   state_of (request ''t1'' op_del)
     (after ''/can_commit'' (request ''t1'' op_del) 0 (boot ''p1.wal'' [])) = Some READY \<and>
   fst (do_POST ''/prepare'' (request ''t1'' op_del) 0 (boot ''p1.wal'' [])) =
     Inr (200, JObj [(''vote'', JStr ''NO'')]) \<and>
   state_of (request ''t1'' op_del)
     (after ''/prepare'' (request ''t1'' op_del) 0 (boot ''p1.wal'' [])) = Some ABORTED"
  by (simp add: post_defs py_defs example_defs)

subsection \<open>Requests for a transaction in a terminal state\<close>





subsection \<open>A commit for an unknown transaction\<close>

text \<open>
  C6, as amended. When \<open>/commit\<close> names a transaction for which the participant holds no
  record, the handler raises: \<open>TypeError\<close> when the body is an object, \<open>AttributeError\<close>
  when it is not. No reply is sent, so no 4xx status either, and the participant is
  unchanged: its transaction table, its key-value store and its WAL.
\<close>

theorem commit_unknown_txid_raises:
  assumes "record_of body st = None"
  shows "do_POST ''/commit'' body now st =
           (Inl (if is_dict body then TypeError else AttributeError), st)"
  using assms
  by (auto simp: do_POST_def post_commit_def record_of_def dict_get_def dict_key_def is_dict_def
      split: json.splits option.splits sum.splits)

theorem commit_unknown_txid_raises_witness:
  "record_of (JObj [(''txid'', JStr ''t1'')]) (boot ''p1.wal'' []) = None \<and>
   do_POST ''/commit'' (JObj [(''txid'', JStr ''t1'')]) 0 (boot ''p1.wal'' []) =
     (Inl TypeError, boot ''p1.wal'' [])"
proof -
  have h: "record_of (JObj [(''txid'', JStr ''t1'')]) (boot ''p1.wal'' []) = None"
    by (simp add: py_defs example_defs)
  show ?thesis
    using h commit_unknown_txid_raises [OF h, of 0] by (simp add: is_dict_def)
qed

text \<open>
  On a participant that has just started, \<open>/commit\<close> for \<open>t1\<close> raises \<open>TypeError\<close> and sends
  nothing.
\<close>

theorem commit_unknown_txid_no_reply:
  "fst (do_POST ''/commit'' (JObj [(''txid'', JStr ''t1'')]) 0 (boot ''p1.wal'' [])) =
     Inl TypeError \<and>
   effects (after ''/commit'' (JObj [(''txid'', JStr ''t1'')]) 0 (boot ''p1.wal'' [])) = []"
  by (simp add: post_defs py_defs example_defs)

section \<open>Recovery of the participant from its WAL\<close>

subsection \<open>The text that \<open>json.dumps\<close> writes\<close>














subsection \<open>Lines and their parts\<close>











lemma plain_text_simps [simp]:
  "plain_text []"
  "plain_text (s @ t) = (plain_text s \<and> plain_text t)"
  by (auto simp: plain_text_def)








subsection \<open>Replay follows the handlers\<close>




lemma same_tables_upd:
  "same_tables rt st \<Longrightarrow> untimed r' = untimed r \<Longrightarrow>
   same_tables (rt\<lparr>TX := (TX rt)(k \<mapsto> r')\<rparr>) (st\<lparr>TX := (TX st)(k \<mapsto> r)\<rparr>)"
  by (simp add: same_tables_def fun_eq_iff)















section \<open>Runs of the coordinator\<close>

subsection \<open>One call, and what the handlers do to the state of a transaction\<close>


lemma vote_loop_Cons:
  "vote_loop path txid opn (p # ps) (votes, ay) w =
     vote_loop path txid opn ps
       (dict_set votes p (recorded (fst (post_json p path (JObj [(''txid'', txid), (''op'', opn)]) w))),
        ay \<and> recorded (fst (post_json p path (JObj [(''txid'', txid), (''op'', opn)]) w)) = JStr ''YES'')
       (snd (post_json p path (JObj [(''txid'', txid), (''op'', opn)]) w))"
  by (auto simp: recorded_def split: prod.splits sum.splits)

lemma post_json_step:
  assumes "post_json p path payload w = (res, w')"
  shows "coord w' = coord w \<and> clock w' = clock w \<and>
      ((nodes w' = nodes w \<and> trace w' = trace w @ [Rpc p path payload None res] \<and>
        res = Inl URLError) \<or>
       (\<exists>st now. nodes w p = Some st \<and>
          nodes w' = (nodes w)(p \<mapsto> snd (do_POST path payload now st)) \<and>
          trace w' = trace w @ [Rpc p path payload (Some (do_POST path payload now st)) res] \<and>
          (\<forall>x. res = Inr x \<longrightarrow> fst (do_POST path payload now st) = Inr x)))"
  using assms
  by (auto simp: post_json_def Let_def split: option.splits if_splits sum.splits prod.splits)

lemma tx_state_alt:
  "tx_state t st = (case dict_key t of Inl e \<Rightarrow> None | Inr k \<Rightarrow> map_option state (TX st k))"
  by (simp add: tx_state_def state_of_def record_of_def dict_get_def split: sum.splits)

lemma tx_state_prepare:
  "tx_state t (snd (do_POST ''/prepare'' (JObj [(''txid'', t), (''op'', opn)]) now st)) = tx_state t st \<or>
   tx_state t (snd (do_POST ''/prepare'' (JObj [(''txid'', t), (''op'', opn)]) now st)) = Some READY \<or>
   (tx_state t (snd (do_POST ''/prepare'' (JObj [(''txid'', t), (''op'', opn)]) now st)) = Some ABORTED \<and>
    fst (do_POST ''/prepare'' (JObj [(''txid'', t), (''op'', opn)]) now st) =
      Inr (200, JObj [(''vote'', JStr ''NO'')]))"
  by (auto simp: tx_state_alt do_POST_def post_prepare_def dict_get_def subscript_def vote_of_def
      split: sum.splits)

lemma tx_state_can_commit:
  "tx_state t (snd (do_POST ''/can_commit'' (JObj [(''txid'', t), (''op'', opn)]) now st)) = tx_state t st \<or>
   tx_state t (snd (do_POST ''/can_commit'' (JObj [(''txid'', t), (''op'', opn)]) now st)) = Some READY"
  by (auto simp: tx_state_alt do_POST_def post_can_commit_def dict_get_def subscript_def
      split: sum.splits)

lemma tx_state_precommit:
  "tx_state t (snd (do_POST ''/precommit'' (JObj [(''txid'', t)]) now st)) = tx_state t st \<or>
   tx_state t (snd (do_POST ''/precommit'' (JObj [(''txid'', t)]) now st)) = Some PRECOMMIT"
  by (auto simp: tx_state_alt do_POST_def post_precommit_def dict_get_def
      split: sum.splits option.splits)

lemma tx_state_commit:
  "tx_state t (snd (do_POST ''/commit'' (JObj [(''txid'', t)]) now st)) = tx_state t st \<or>
   tx_state t (snd (do_POST ''/commit'' (JObj [(''txid'', t)]) now st)) = Some COMMITTED"
  by (auto simp: tx_state_alt do_POST_def post_commit_def dict_get_def
      split: sum.splits option.splits)

lemma tx_state_abort:
  "tx_state t (snd (do_POST ''/abort'' (JObj [(''txid'', t)]) now st)) = tx_state t st \<or>
   tx_state t (snd (do_POST ''/abort'' (JObj [(''txid'', t)]) now st)) = Some ABORTED"
  by (auto simp: tx_state_alt do_POST_def post_abort_def dict_get_def
      split: sum.splits option.splits)

lemma acked_path: "acked t (Rpc p path payload h res) = Some q \<Longrightarrow> q = path"
  by (auto split: option.splits sum.splits prod.splits if_splits)

lemma recorded_NO: "recorded (Inr (200, JObj [(''vote'', JStr ''NO'')])) \<noteq> JStr ''YES''"
  by (simp add: recorded_def record_vote_def dict_get_def)

lemma recorded_YES_Inr: "recorded r = JStr ''YES'' \<Longrightarrow> \<exists>x. r = Inr x"
  by (cases r) (simp_all add: recorded_def record_vote_def)

lemma post_json_inv:
  assumes step: "post_json p path payload w = (res, w')"
    and Q: "\<forall>q st. nodes w q = Some st \<longrightarrow> Q st"
    and pres: "\<And>st now. Q st \<Longrightarrow>
        (\<forall>x. res = Inr x \<longrightarrow> fst (do_POST path payload now st) = Inr x) \<Longrightarrow>
        Q' (snd (do_POST path payload now st)) \<and>
        E (Rpc p path payload (Some (do_POST path payload now st)) res)"
    and weak: "\<And>st. Q st \<Longrightarrow> Q' st"
    and lostE: "E (Rpc p path payload None (Inl URLError))"
  shows "(\<forall>q st. nodes w' q = Some st \<longrightarrow> Q' st) \<and> coord w' = coord w \<and>
         (\<exists>e. trace w' = trace w @ [e] \<and> E e \<and> rpc_path e = Some path \<and> rpc_node e = Some p \<and>
              rpc_result e = Some res)"
proof -
  from post_json_step [OF step] have c: "coord w' = coord w" by blast
  from post_json_step [OF step] consider
    (lost) "nodes w' = nodes w" "trace w' = trace w @ [Rpc p path payload None res]"
      "res = Inl URLError"
    | (handled) st now where "nodes w p = Some st"
      "nodes w' = (nodes w)(p \<mapsto> snd (do_POST path payload now st))"
      "trace w' = trace w @ [Rpc p path payload (Some (do_POST path payload now st)) res]"
      "\<forall>x. res = Inr x \<longrightarrow> fst (do_POST path payload now st) = Inr x"
    by blast
  then show ?thesis
  proof cases
    case lost
    then show ?thesis using Q weak lostE c by auto
  next
    case handled
    from Q handled(1) have "Q st" by blast
    from pres [OF this handled(4)] show ?thesis
      using handled Q weak c by auto
  qed
qed

lemma send_all_inv:
  assumes Q: "\<forall>q st. nodes w q = Some st \<longrightarrow> Q st"
    and pres: "\<And>p st now res. Q st \<Longrightarrow>
        Q (snd (do_POST path (JObj [(''txid'', t)]) now st)) \<and>
        E (Rpc p path (JObj [(''txid'', t)]) (Some (do_POST path (JObj [(''txid'', t)]) now st)) res)"
    and lostE: "\<And>p. E (Rpc p path (JObj [(''txid'', t)]) None (Inl URLError))"
  shows "(\<forall>q st. nodes (send_all path t ps w) q = Some st \<longrightarrow> Q st) \<and>
         coord (send_all path t ps w) = coord w \<and>
         (\<exists>es. trace (send_all path t ps w) = trace w @ es \<and> list_all E es \<and>
            list_all (\<lambda>e. rpc_path e = Some path) es \<and> map rpc_node es = map Some ps)"
  using Q
proof (induction ps arbitrary: w)
  case Nil
  then show ?case by simp
next
  case (Cons p ps)
  obtain res w1 where step: "post_json p path (JObj [(''txid'', t)]) w = (res, w1)"
    by (cases "post_json p path (JObj [(''txid'', t)]) w")
  from post_json_inv [OF step Cons.prems, of Q E] pres lostE
  have q1: "\<forall>q st. nodes w1 q = Some st \<longrightarrow> Q st" and c1: "coord w1 = coord w"
    and e1: "\<exists>e. trace w1 = trace w @ [e] \<and> E e \<and> rpc_path e = Some path \<and> rpc_node e = Some p"
    by blast+
  from e1 obtain e where e: "trace w1 = trace w @ [e]" "E e" "rpc_path e = Some path"
    "rpc_node e = Some p" by blast
  from Cons.IH [OF q1] obtain es where
    ih: "\<forall>q st. nodes (send_all path t ps w1) q = Some st \<longrightarrow> Q st"
    "coord (send_all path t ps w1) = coord w1"
    "trace (send_all path t ps w1) = trace w1 @ es" "list_all E es"
    "list_all (\<lambda>e. rpc_path e = Some path) es" "map rpc_node es = map Some ps"
    by blast
  have s: "send_all path t (p # ps) w = send_all path t ps w1" using step by simp
  show ?case
    unfolding s using ih e c1
    by (intro conjI exI [of _ "e # es"]) simp_all
qed

lemma vote_step:
  assumes path: "path = ''/prepare'' \<or> path = ''/can_commit''"
    and ay1: "ay1 = (ay \<and> recorded res = JStr ''YES'')"
    and q: "undecided t ay st"
    and relay: "\<forall>x. res = Inr x \<longrightarrow>
        fst (do_POST path (JObj [(''txid'', t), (''op'', opn)]) now st) = Inr x"
  shows "undecided t ay1 (snd (do_POST path (JObj [(''txid'', t), (''op'', opn)]) now st)) \<and>
         undecided_event t ay1
           (Rpc p path (JObj [(''txid'', t), (''op'', opn)])
              (Some (do_POST path (JObj [(''txid'', t), (''op'', opn)]) now st)) res)"
proof -
  let ?h = "do_POST path (JObj [(''txid'', t), (''op'', opn)]) now st"
  have no: "fst ?h = Inr (200, JObj [(''vote'', JStr ''NO'')]) \<Longrightarrow> \<not> ay1"
  proof
    assume h: "fst ?h = Inr (200, JObj [(''vote'', JStr ''NO'')])" and "ay1"
    then have y: "recorded res = JStr ''YES''" using ay1 by simp
    then obtain x where "res = Inr x" by (blast dest: recorded_YES_Inr)
    with relay h have "res = Inr (200, JObj [(''vote'', JStr ''NO'')])" by simp
    with y recorded_NO show False by simp
  qed
  have cases: "tx_state t (snd ?h) = tx_state t st \<or> tx_state t (snd ?h) = Some READY \<or>
      (tx_state t (snd ?h) = Some ABORTED \<and> fst ?h = Inr (200, JObj [(''vote'', JStr ''NO'')]))"
    using path tx_state_prepare [of t opn now st] tx_state_can_commit [of t opn now st] by auto
  have u: "undecided t ay1 (snd ?h)"
    using cases q no ay1 by (auto simp: undecided_def)
  have a: "acked t (Rpc p path (JObj [(''txid'', t), (''op'', opn)]) (Some ?h) res) \<noteq> Some ''/commit''"
    "acked t (Rpc p path (JObj [(''txid'', t), (''op'', opn)]) (Some ?h) res) \<noteq> Some ''/abort''"
    using path by (auto simp del: acked.simps dest!: acked_path)
  have "reached t (Rpc p path (JObj [(''txid'', t), (''op'', opn)]) (Some ?h) res) = tx_state t (snd ?h)"
    by (cases ?h) simp
  with u a show ?thesis by (simp add: undecided_def undecided_event_def)
qed

lemma vote_loop_inv:
  assumes "path = ''/prepare'' \<or> path = ''/can_commit''"
    and "\<forall>q st. nodes w q = Some st \<longrightarrow> undecided t ay st"
    and "vote_loop path t opn ps (votes, ay) w = ((votes', ay'), w')"
  shows "(\<forall>q st. nodes w' q = Some st \<longrightarrow> undecided t ay' st) \<and> (ay' \<longrightarrow> ay) \<and>
         coord w' = coord w \<and>
         (\<exists>es. trace w' = trace w @ es \<and> list_all (undecided_event t ay') es \<and>
            list_all (\<lambda>e. rpc_path e = Some path) es \<and> map rpc_node es = map Some ps)"
  using assms(2,3)
proof (induction ps arbitrary: votes ay w)
  case Nil
  then show ?case by simp
next
  case (Cons p ps)
  let ?B = "JObj [(''txid'', t), (''op'', opn)]"
  obtain res w1 where step: "post_json p path ?B w = (res, w1)"
    by (cases "post_json p path ?B w")
  define ay1 where "ay1 = (ay \<and> recorded res = JStr ''YES'')"
  have loop: "vote_loop path t opn ps (dict_set votes p (recorded res), ay1) w1 = ((votes', ay'), w')"
    using Cons.prems(2) step by (simp only: vote_loop_Cons ay1_def fst_conv snd_conv)
  have weak: "undecided t ay st \<Longrightarrow> undecided t ay1 st" for st
    by (auto simp: undecided_def ay1_def)
  have lost: "undecided_event t ay1 (Rpc p path ?B None (Inl URLError))"
    by (simp add: undecided_event_def)
  from post_json_inv [OF step Cons.prems(1), of "undecided t ay1" "undecided_event t ay1"]
    vote_step [OF assms(1) ay1_def] weak lost
  have q1: "\<forall>q st. nodes w1 q = Some st \<longrightarrow> undecided t ay1 st" and c1: "coord w1 = coord w"
    and e1: "\<exists>e. trace w1 = trace w @ [e] \<and> undecided_event t ay1 e \<and> rpc_path e = Some path \<and>
        rpc_node e = Some p"
    by blast+
  from e1 obtain e where e: "trace w1 = trace w @ [e]" "undecided_event t ay1 e"
    "rpc_path e = Some path" "rpc_node e = Some p" by blast
  from Cons.IH [OF q1 loop] obtain es where
    ih: "\<forall>q st. nodes w' q = Some st \<longrightarrow> undecided t ay' st" "ay' \<longrightarrow> ay1" "coord w' = coord w1"
    "trace w' = trace w1 @ es" "list_all (undecided_event t ay') es"
    "list_all (\<lambda>e. rpc_path e = Some path) es" "map rpc_node es = map Some ps"
    by blast
  have e': "undecided_event t ay' e" using e(2) ih(2) by (auto simp: undecided_event_def)
  show ?case
    using ih e e' c1 ay1_def
    by (intro conjI exI [of _ "e # es"]) simp_all
qed

lemma start_dispatch:
  "start txid opn protocol w =
     (case (if vote_path protocol = ''/can_commit'' then three_pc txid opn w else two_pc txid opn w) of
        (Inl e, w') \<Rightarrow> (Inl e, w')
      | (Inr r, w') \<Rightarrow> (Inr (200, r), w'))"
  by (cases protocol)
    (simp_all add: start_def do_POST_c_def subscript_def dict_get_def attempt_def upper_def
      vote_path_def upper_char_def)



lemma coord_wal_append_c [simp]:
  "PARTICIPANTS (coord (wal_append_c l w)) = PARTICIPANTS (coord w)"
  "nodes (wal_append_c l w) = nodes w"
  by (simp_all add: wal_append_c_def)

subsection \<open>The phases of a run\<close>

lemma vote_loop_trace:
  assumes "vote_loop path t opn ps (votes, ay) w = ((votes', ay'), w')"
  shows "coord w' = coord w \<and>
         (\<exists>es. trace w' = trace w @ es \<and> map rpc_node es = map Some ps \<and>
            list_all (\<lambda>e. rpc_path e = Some path) es)"
  using assms
proof (induction ps arbitrary: votes ay w)
  case Nil
  then show ?case by simp
next
  case (Cons p ps)
  let ?B = "JObj [(''txid'', t), (''op'', opn)]"
  obtain res w1 where step: "post_json p path ?B w = (res, w1)"
    by (cases "post_json p path ?B w")
  have loop: "vote_loop path t opn ps
      (dict_set votes p (recorded res), ay \<and> recorded res = JStr ''YES'') w1 = ((votes', ay'), w')"
    using Cons.prems step by (simp only: vote_loop_Cons fst_conv snd_conv)
  from post_json_inv [OF step, of "\<lambda>st. True" "\<lambda>st. True" "\<lambda>e. True"]
  obtain e where e: "trace w1 = trace w @ [e]" "rpc_path e = Some path" "rpc_node e = Some p"
    and c1: "coord w1 = coord w"
    by auto
  from Cons.IH [OF loop] obtain es where
    ih: "coord w' = coord w1" "trace w' = trace w1 @ es" "map rpc_node es = map Some ps"
    "list_all (\<lambda>e. rpc_path e = Some path) es"
    by blast
  show ?case
    using ih e c1 by (intro conjI exI [of _ "e # es"]) simp_all
qed

lemma send_all_trace:
  "coord (send_all path t ps w) = coord w \<and>
   (\<exists>es. trace (send_all path t ps w) = trace w @ es \<and>
      list_all (\<lambda>e. rpc_path e = Some path) es \<and> map rpc_node es = map Some ps)"
  using send_all_inv [of w "\<lambda>st. True" path t "\<lambda>e. True" ps] by auto

lemma trace_wal_append_c:
  "trace (wal_append_c l w) =
     trace w @ (if WAL_PATH_c (coord w) = None \<or> WAL_PATH_c (coord w) = Some [] then []
                else [WalAppend l])"
  by (simp add: wal_append_c_def)


lemma WAL_PATH_c_wal_append_c [simp]:
  "WAL_PATH_c (coord (wal_append_c l w)) = WAL_PATH_c (coord w)"
  by (simp add: wal_append_c_def)

lemma finish_simps [simp]:
  "trace (snd (finish pr t d votes w)) = trace w"
  "nodes (snd (finish pr t d votes w)) = nodes w"
  "wal_c (coord (snd (finish pr t d votes w))) = wal_c (coord w)"
  "fst (finish pr t d votes w) =
     (case dict_key t of Inl e \<Rightarrow> Inl e | Inr k \<Rightarrow> Inr (result_of t d votes))"
  by (simp_all add: finish_def result_of_def split: sum.splits)

lemma two_pc_eq:
  assumes "vote_loop ''/prepare'' t opn (PARTICIPANTS (coord w)) ([], True) w = ((votes, ay), w1)"
  shows "two_pc t opn w =
     finish ''2PC'' t (if ay then ''COMMIT'' else ''ABORT'') votes
       (send_all (decision_path (if ay then ''COMMIT'' else ''ABORT'')) t (PARTICIPANTS (coord w))
          (wal_append_c (py_str t @ '' DECISION '' @ (if ay then ''COMMIT'' else ''ABORT'')) w1))"
proof -
  from vote_loop_trace [OF assms] have "coord w1 = coord w" by blast
  then show ?thesis using assms by (simp add: two_pc_def Let_def decision_path_def)
qed

lemma three_pc_eq:
  assumes "vote_loop ''/can_commit'' t opn (PARTICIPANTS (coord w)) ([], True) w = ((votes, ay), w1)"
  shows "three_pc t opn w =
     finish ''3PC'' t (if ay then ''COMMIT'' else ''ABORT'') votes
       (send_all (decision_path (if ay then ''COMMIT'' else ''ABORT'')) t (PARTICIPANTS (coord w))
          (wal_append_c (py_str t @ '' DECISION '' @ (if ay then ''COMMIT'' else ''ABORT''))
             (if ay then send_all ''/precommit'' t (PARTICIPANTS (coord w)) w1 else w1)))"
proof -
  from vote_loop_trace [OF assms] have c: "coord w1 = coord w" by blast
  have "coord (send_all ''/precommit'' t (PARTICIPANTS (coord w)) w1) = coord w"
    using send_all_trace [of "''/precommit''" t "PARTICIPANTS (coord w)" w1] c by simp
  then show ?thesis using assms c by (simp add: three_pc_def Let_def decision_path_def)
qed

lemma undecided_event_agrees:
  "undecided_event t ay e \<Longrightarrow> agrees (if ay then ''COMMIT'' else ''ABORT'') t e"
  by (auto simp: undecided_event_def agrees_def)

lemma reached_Rpc_Some:
  "reached t (Rpc p path payload (Some h) res) = tx_state t (snd h)"
  by (cases h) simp

lemma commit_step_agrees:
  assumes "tx_state t st \<noteq> Some ABORTED"
  shows "tx_state t (snd (do_POST ''/commit'' (JObj [(''txid'', t)]) now st)) \<noteq> Some ABORTED \<and>
         agrees ''COMMIT'' t (Rpc p ''/commit'' (JObj [(''txid'', t)])
           (Some (do_POST ''/commit'' (JObj [(''txid'', t)]) now st)) res)"
proof -
  let ?h = "do_POST ''/commit'' (JObj [(''txid'', t)]) now st"
  have s: "tx_state t (snd ?h) \<noteq> Some ABORTED"
    using tx_state_commit [of t now st] assms by auto
  have a: "acked t (Rpc p ''/commit'' (JObj [(''txid'', t)]) (Some ?h) res) \<noteq> Some ''/abort''"
    by (auto simp del: acked.simps dest!: acked_path)
  show ?thesis using s a by (simp add: agrees_def reached_Rpc_Some del: acked.simps reached.simps)
qed

lemma abort_step_agrees:
  assumes "tx_state t st \<noteq> Some COMMITTED"
  shows "tx_state t (snd (do_POST ''/abort'' (JObj [(''txid'', t)]) now st)) \<noteq> Some COMMITTED \<and>
         agrees ''ABORT'' t (Rpc p ''/abort'' (JObj [(''txid'', t)])
           (Some (do_POST ''/abort'' (JObj [(''txid'', t)]) now st)) res)"
proof -
  let ?h = "do_POST ''/abort'' (JObj [(''txid'', t)]) now st"
  have s: "tx_state t (snd ?h) \<noteq> Some COMMITTED"
    using tx_state_abort [of t now st] assms by auto
  have a: "acked t (Rpc p ''/abort'' (JObj [(''txid'', t)]) (Some ?h) res) \<noteq> Some ''/commit''"
    by (auto simp del: acked.simps dest!: acked_path)
  show ?thesis using s a by (simp add: agrees_def reached_Rpc_Some del: acked.simps reached.simps)
qed

lemma precommit_step_undecided:
  assumes "undecided t True st"
  shows "undecided t True (snd (do_POST ''/precommit'' (JObj [(''txid'', t)]) now st)) \<and>
         undecided_event t True (Rpc p ''/precommit'' (JObj [(''txid'', t)])
           (Some (do_POST ''/precommit'' (JObj [(''txid'', t)]) now st)) res)"
proof -
  let ?h = "do_POST ''/precommit'' (JObj [(''txid'', t)]) now st"
  have s: "undecided t True (snd ?h)"
    using tx_state_precommit [of t now st] assms by (auto simp: undecided_def)
  have a: "acked t (Rpc p ''/precommit'' (JObj [(''txid'', t)]) (Some ?h) res) \<noteq> Some ''/commit''"
    "acked t (Rpc p ''/precommit'' (JObj [(''txid'', t)]) (Some ?h) res) \<noteq> Some ''/abort''"
    by (auto simp del: acked.simps dest!: acked_path)
  show ?thesis
    using s a
    by (simp add: undecided_def undecided_event_def reached_Rpc_Some del: acked.simps reached.simps)
qed

lemma precommit_phase:
  assumes "\<forall>q st. nodes w q = Some st \<longrightarrow> undecided t True st"
  shows "(\<forall>q st. nodes (send_all ''/precommit'' t ps w) q = Some st \<longrightarrow> undecided t True st) \<and>
         (\<exists>es. trace (send_all ''/precommit'' t ps w) = trace w @ es \<and>
            list_all (undecided_event t True) es \<and>
            list_all (\<lambda>e. rpc_path e = Some ''/precommit'') es)"
proof -
  have l: "undecided_event t True (Rpc p ''/precommit'' (JObj [(''txid'', t)]) None (Inl URLError))"
    for p by (simp add: undecided_event_def)
  have "(\<forall>q st. nodes (send_all ''/precommit'' t ps w) q = Some st \<longrightarrow> undecided t True st) \<and>
      coord (send_all ''/precommit'' t ps w) = coord w \<and>
      (\<exists>es. trace (send_all ''/precommit'' t ps w) = trace w @ es \<and>
         list_all (undecided_event t True) es \<and>
         list_all (\<lambda>e. rpc_path e = Some ''/precommit'') es \<and> map rpc_node es = map Some ps)"
    by (rule send_all_inv) (use assms precommit_step_undecided l in blast)+
  then show ?thesis by blast
qed

lemma start_shape:
  obtains pr votes ay w1 wm where
    "vote_loop (vote_path protocol) t opn (PARTICIPANTS (coord w)) ([], True) w = ((votes, ay), w1)"
    "wm = w1 \<or> (ay \<and> wm = send_all ''/precommit'' t (PARTICIPANTS (coord w)) w1)"
    "start t opn protocol w =
       (case finish pr t (if ay then ''COMMIT'' else ''ABORT'') votes
               (send_all (decision_path (if ay then ''COMMIT'' else ''ABORT'')) t
                  (PARTICIPANTS (coord w))
                  (wal_append_c (py_str t @ '' DECISION '' @ (if ay then ''COMMIT'' else ''ABORT''))
                     wm)) of
          (Inl e, w') \<Rightarrow> (Inl e, w')
        | (Inr r, w') \<Rightarrow> (Inr (200, r), w'))"
proof -
  obtain votes ay w1 where
    v: "vote_loop (vote_path protocol) t opn (PARTICIPANTS (coord w)) ([], True) w = ((votes, ay), w1)"
    by (metis surj_pair)
  show thesis
  proof (cases "vote_path protocol = ''/can_commit''")
    case True
    with v have v': "vote_loop ''/can_commit'' t opn (PARTICIPANTS (coord w)) ([], True) w =
        ((votes, ay), w1)" by simp
    show thesis
      by (rule that [where pr = "''3PC''" and wm =
            "if ay then send_all ''/precommit'' t (PARTICIPANTS (coord w)) w1 else w1", OF v])
        (simp_all add: start_dispatch True three_pc_eq [OF v'])
  next
    case False
    then have p: "vote_path protocol = ''/prepare''" by (simp add: vote_path_def split: if_splits)
    with v have v': "vote_loop ''/prepare'' t opn (PARTICIPANTS (coord w)) ([], True) w =
        ((votes, ay), w1)" by simp
    show thesis
      by (rule that [where pr = "''2PC''" and wm = w1, OF v])
        (simp_all add: start_dispatch p two_pc_eq [OF v'])
  qed
qed

lemma snd_case_start [simp]:
  "snd (case x of (Inl e, w') \<Rightarrow> (Inl e, w') | (Inr r, w') \<Rightarrow> (Inr (200 :: nat, r :: json), w')) =
   snd (x :: (py_error + json) \<times> world)"
  by (cases x; cases "fst x") auto

lemma fst_case_start:
  "fst (case x of (Inl e, w') \<Rightarrow> (Inl e, w') | (Inr r, w') \<Rightarrow> (Inr (200 :: nat, r :: json), w')) =
   (case fst (x :: (py_error + json) \<times> world) of Inl e \<Rightarrow> Inl e | Inr r \<Rightarrow> Inr (200, r))"
  by (cases x; cases "fst x") auto

lemma agrees_WalAppend [simp]: "agrees d t (WalAppend l)"
  by (simp add: agrees_def)

lemma list_all_mono': "list_all P xs \<Longrightarrow> (\<And>x. P x \<Longrightarrow> Q x) \<Longrightarrow> list_all Q xs"
  by (auto simp: list_all_iff)

lemma not_WalAppend: "list_all (\<lambda>e. rpc_path e = Some path) es \<Longrightarrow> WalAppend l \<notin> set es"
  by (auto simp: list_all_iff)




subsection \<open>Other transactions, and the retry loop\<close>

lemma tx_state_other:
  assumes "\<not> names_tx t payload"
  shows "tx_state t (snd (do_POST path payload now st)) = tx_state t st"
proof (cases "dict_get payload ''txid'' JNull")
  case (Inl e)
  then show ?thesis by (simp add: do_POST_def)
next
  case (Inr t')
  with assms have ne: "dict_key t' \<noteq> dict_key t" by (simp add: names_tx_def)
  show ?thesis
  proof (cases "dict_key t'")
    case (Inl e)
    then show ?thesis
      using Inr
      by (simp add: do_POST_def post_prepare_def post_commit_def post_abort_def
          post_can_commit_def post_precommit_def send_def tx_state_alt split: sum.splits)
  next
    case k': (Inr k')
    show ?thesis
    proof (cases "dict_key t")
      case (Inl e)
      then show ?thesis by (simp add: tx_state_alt)
    next
      case (Inr k)
      with ne k' have "k' \<noteq> k" by simp
      then show ?thesis
        using \<open>dict_get payload ''txid'' JNull = Inr t'\<close> k' Inr
        by (simp add: do_POST_def post_prepare_def post_commit_def post_abort_def
            post_can_commit_def post_precommit_def send_def tx_state_alt
            split: sum.splits option.splits)
    qed
  qed
qed

lemma other_step:
  assumes "settled d t st" and "d = ''COMMIT'' \<or> d = ''ABORT''" and "\<not> names_tx t payload"
  shows "settled d t (snd (do_POST path payload now st)) \<and>
         agrees d t (Rpc p path payload (Some (do_POST path payload now st)) res)"
proof -
  let ?h = "do_POST path payload now st"
  have s: "tx_state t (snd ?h) = tx_state t st" using assms(3) by (rule tx_state_other)
  have a: "acked t (Rpc p path payload (Some ?h) res) = None"
    using assms(3) by (auto split: sum.splits prod.splits)
  show ?thesis
    using assms(1,2) s a
    by (auto simp: settled_def agrees_def reached_Rpc_Some simp del: acked.simps reached.simps)
qed

lemma own_step:
  assumes "settled d t st" and "d = ''COMMIT'' \<or> d = ''ABORT''"
  shows "settled d t (snd (do_POST (decision_path d) (JObj [(''txid'', t)]) now st)) \<and>
         agrees d t (Rpc p (decision_path d) (JObj [(''txid'', t)])
           (Some (do_POST (decision_path d) (JObj [(''txid'', t)]) now st)) res)"
proof (cases "d = ''COMMIT''")
  case True
  with assms(1) have "tx_state t st \<noteq> Some ABORTED" by (simp add: settled_def)
  from commit_step_agrees [OF this, of now p res] show ?thesis
    using True by (simp add: settled_def decision_path_def del: acked.simps reached.simps)
next
  case False
  with assms have d: "d = ''ABORT''" and "tx_state t st \<noteq> Some COMMITTED"
    by (auto simp: settled_def)
  from abort_step_agrees [OF this(2), of now p res] show ?thesis
    using d by (simp add: settled_def decision_path_def del: acked.simps reached.simps)
qed

lemma agrees_lost: "agrees d t (Rpc p path payload None res)"
  by (simp add: agrees_def)

lemma send_all_settled:
  assumes q: "\<forall>q st. nodes w q = Some st \<longrightarrow> settled d t st"
    and d: "d = ''COMMIT'' \<or> d = ''ABORT''"
    and own: "dict_key t' = dict_key t \<Longrightarrow> t' = t \<and> path = decision_path d"
  shows "(\<forall>q st. nodes (send_all path t' ps w) q = Some st \<longrightarrow> settled d t st) \<and>
         coord (send_all path t' ps w) = coord w \<and>
         (\<exists>es. trace (send_all path t' ps w) = trace w @ es \<and> list_all (agrees d t) es \<and>
            list_all (\<lambda>e. rpc_path e = Some path) es \<and> map rpc_node es = map Some ps)"
proof (rule send_all_inv)
  show "\<forall>q st. nodes w q = Some st \<longrightarrow> settled d t st" by (rule q)
next
  fix p st now res
  assume s: "settled d t st"
  show "settled d t (snd (do_POST path (JObj [(''txid'', t')]) now st)) \<and>
        agrees d t (Rpc p path (JObj [(''txid'', t')])
          (Some (do_POST path (JObj [(''txid'', t')]) now st)) res)"
  proof (cases "dict_key t' = dict_key t")
    case True
    with own have "t' = t" "path = decision_path d" by simp_all
    with own_step [OF s d, of now p res] show ?thesis by simp
  next
    case False
    then have "\<not> names_tx t (JObj [(''txid'', t')])" by (simp add: names_tx_def dict_get_def)
    from other_step [OF s d this] show ?thesis .
  qed
next
  fix p
  show "agrees d t (Rpc p path (JObj [(''txid'', t')]) None (Inl URLError))"
    by (rule agrees_lost)
qed

lemma retry_record_settled:
  assumes q: "\<forall>q st. nodes w q = Some st \<longrightarrow> settled d t st"
    and d: "d = ''COMMIT'' \<or> d = ''ABORT''"
    and ok: "record_ok d t rec"
    and r: "retry_record rec w = Inr w1"
  shows "(\<forall>q st. nodes w1 q = Some st \<longrightarrow> settled d t st) \<and> coord w1 = coord w \<and>
         (\<exists>es. trace w1 = trace w @ es \<and> list_all (agrees d t) es \<and>
            list_all (\<lambda>e. rpc_path e \<noteq> None) es)"
proof (cases "w1 = w")
  case True
  then show ?thesis using q by (intro conjI exI [of _ "[]"]) simp_all
next
  case False
  with r obtain decision t' where
    dec: "dict_get rec ''decision'' JNull = Inr (JStr decision)"
    and dc: "decision = ''COMMIT'' \<or> decision = ''ABORT''"
    and tx: "subscript rec ''txid'' = Inr t'"
    and w1: "w1 = send_all (decision_path decision) t' (PARTICIPANTS (coord w)) w"
    by (auto simp: retry_record_def decision_path_def split: sum.splits if_splits)
  have own: "t' = t \<and> decision_path decision = decision_path d" if "dict_key t' = dict_key t"
    using ok that tx dec by (auto simp: record_ok_def other_record_def)
  from send_all_settled [OF q d, of t' "decision_path decision" "PARTICIPANTS (coord w)"] own
  obtain es where
    "\<forall>q st. nodes (send_all (decision_path decision) t' (PARTICIPANTS (coord w)) w) q = Some st \<longrightarrow>
       settled d t st"
    "coord (send_all (decision_path decision) t' (PARTICIPANTS (coord w)) w) = coord w"
    "trace (send_all (decision_path decision) t' (PARTICIPANTS (coord w)) w) = trace w @ es"
    "list_all (agrees d t) es"
    "list_all (\<lambda>e. rpc_path e = Some (decision_path decision)) es"
    by blast
  then show ?thesis
    unfolding w1 by (intro conjI exI [of _ es]) (auto simp: list_all_iff)
qed

lemma retry_records_settled:
  assumes "\<forall>q st. nodes w q = Some st \<longrightarrow> settled d t st"
    and "d = ''COMMIT'' \<or> d = ''ABORT''"
    and "list_all (record_ok d t) recs"
  shows "(\<forall>q st. nodes (snd (retry_records recs w)) q = Some st \<longrightarrow> settled d t st) \<and>
         coord (snd (retry_records recs w)) = coord w \<and>
         (\<exists>es. trace (snd (retry_records recs w)) = trace w @ es \<and>
            list_all (agrees d t) es \<and> list_all (\<lambda>e. rpc_path e \<noteq> None) es)"
  using assms(1,3)
proof (induction recs arbitrary: w)
  case Nil
  then show ?case by simp
next
  case (Cons rec recs)
  have ok: "record_ok d t rec" and rest: "list_all (record_ok d t) recs"
    using Cons.prems(2) by simp_all
  show ?case
  proof (cases "retry_record rec w")
    case (Inl e)
    then show ?thesis using Cons.prems(1) by simp
  next
    case (Inr w1)
    from retry_record_settled [OF Cons.prems(1) assms(2) ok Inr] obtain es1 where
      q1: "\<forall>q st. nodes w1 q = Some st \<longrightarrow> settled d t st" and c1: "coord w1 = coord w"
      and t1: "trace w1 = trace w @ es1" and a1: "list_all (agrees d t) es1"
      and p1: "list_all (\<lambda>e. rpc_path e \<noteq> None) es1"
      by blast
    from Cons.IH [OF q1 rest] obtain es2 where
      ih: "\<forall>q st. nodes (snd (retry_records recs w1)) q = Some st \<longrightarrow> settled d t st"
      "coord (snd (retry_records recs w1)) = coord w1"
      "trace (snd (retry_records recs w1)) = trace w1 @ es2" "list_all (agrees d t) es2"
      "list_all (\<lambda>e. rpc_path e \<noteq> None) es2"
      by blast
    have r: "retry_records (rec # recs) w = retry_records recs w1" using Inr by simp
    show ?thesis
      unfolding r using ih c1 t1 a1 p1
      by (intro conjI exI [of _ "es1 @ es2"]) simp_all
  qed
qed

lemma retry_loop_settled:
  assumes "\<forall>q st. nodes w q = Some st \<longrightarrow> settled d t st"
    and "d = ''COMMIT'' \<or> d = ''ABORT''"
    and "list_all (record_ok d t) (map snd (TX_c (coord w)))"
  shows "\<exists>es. trace (retry_loop n w) = trace w @ es \<and> list_all (agrees d t) es \<and>
           list_all (\<lambda>e. rpc_path e \<noteq> None) es"
  using assms(1,3)
proof (induction n arbitrary: w)
  case 0
  then show ?case by simp
next
  case (Suc n)
  obtain err w1 where rp: "retry_pass w = (err, w1)" by (cases "retry_pass w")
  from retry_records_settled [OF Suc.prems(1) assms(2) Suc.prems(2)] rp obtain es1 where
    q1: "\<forall>q st. nodes w1 q = Some st \<longrightarrow> settled d t st"
    and c1: "coord w1 = coord w"
    and t1: "trace w1 = trace w @ es1" and a1: "list_all (agrees d t) es1"
    and p1: "list_all (\<lambda>e. rpc_path e \<noteq> None) es1"
    unfolding retry_pass_def by auto
  show ?case
  proof (cases err)
    case (Some e)
    then show ?thesis using rp t1 a1 p1 by simp
  next
    case None
    have r1: "list_all (record_ok d t) (map snd (TX_c (coord w1)))"
      using Suc.prems(2) c1 by simp
    from Suc.IH [OF q1 r1] obtain es2 where
      "trace (retry_loop n w1) = trace w1 @ es2"
      "list_all (agrees d t) es2" "list_all (\<lambda>e. rpc_path e \<noteq> None) es2"
      by blast
    then show ?thesis
      using rp None t1 a1 p1 by (intro exI [of _ "es1 @ es2"]) simp
  qed
qed

lemma list_all_dict_set:
  "list_all P (map snd kvs) \<Longrightarrow> P v \<Longrightarrow> list_all P (map snd (dict_set kvs k v))"
  by (induction kvs k v rule: dict_set.induct) auto

lemma TX_c_wal_append_c [simp]: "TX_c (coord (wal_append_c l w)) = TX_c (coord w)"
  by (simp add: wal_append_c_def)

lemma finish_records:
  assumes "list_all (record_ok d t) (map snd (TX_c (coord w)))"
  shows "list_all (record_ok d t) (map snd (TX_c (coord (snd (finish pr t d votes w)))))"
proof (cases "dict_key t")
  case (Inl e)
  then show ?thesis using assms by (simp add: finish_def)
next
  case (Inr k)
  have "record_ok d t (JObj [(''txid'', t), (''protocol'', JStr pr), (''decision'', JStr d),
      (''votes'', JObj votes), (''state'', JStr ''DONE'')])"
    by (simp add: record_ok_def subscript_def dict_get_def)
  then show ?thesis using assms Inr by (simp add: finish_def list_all_dict_set)
qed

lemma undecided_settled:
  "undecided t ay st \<Longrightarrow> settled (if ay then ''COMMIT'' else ''ABORT'') t st"
  by (auto simp: undecided_def settled_def)

subsection \<open>Agreement\<close>

text \<open>
  C1, as amended. Let \<open>txid\<close> be new when \<open>Start(txid, op, protocol)\<close> is called: no
  participant holds a record for it and the coordinator's table has none. Then the run,
  in either protocol and whatever the network does to its calls, with any number of
  passes of the retry loop after it, has one decision \<open>d\<close>, \<open>COMMIT\<close> or \<open>ABORT\<close>: the
  only line appended to the coordinator's WAL is \<open>txid DECISION d\<close> (appended when a WAL
  path is configured), the result that \<open>Start\<close> returns carries \<open>d\<close>, every terminal
  state a participant reaches for \<open>txid\<close> is the one of \<open>d\<close> (\<open>COMMITTED\<close> only if \<open>d\<close>
  is \<open>COMMIT\<close>, \<open>ABORTED\<close> only if \<open>d\<close> is \<open>ABORT\<close>), and every \<open>/commit\<close> or \<open>/abort\<close> for
  \<open>txid\<close> that a participant acknowledges is the one of \<open>d\<close>.
\<close>

theorem agreement_for_fresh_txid:
  assumes "fresh txid w" and "unknown_to_coordinator txid w"
  shows "\<exists>d es. trace (retry_loop n (snd (start txid opn protocol w))) = trace w @ es \<and>
           (d = ''COMMIT'' \<or> d = ''ABORT'') \<and>
           list_all (agrees d txid) es \<and>
           (\<forall>l. WalAppend l \<in> set es \<longrightarrow> l = py_str txid @ '' DECISION '' @ d) \<and>
           ((\<exists>pth. WAL_PATH_c (coord w) = Some pth \<and> pth \<noteq> []) \<longrightarrow>
              WalAppend (py_str txid @ '' DECISION '' @ d) \<in> set es) \<and>
           (\<forall>r. fst (start txid opn protocol w) = Inr (200, r) \<longrightarrow>
              (\<exists>votes. r = result_of txid d votes))"
proof -
  let ?ps = "PARTICIPANTS (coord w)"
  obtain pr votes ay w1 wm where
    v: "vote_loop (vote_path protocol) txid opn ?ps ([], True) w = ((votes, ay), w1)"
    and m: "wm = w1 \<or> (ay \<and> wm = send_all ''/precommit'' txid ?ps w1)"
    and s: "start txid opn protocol w =
       (case finish pr txid (if ay then ''COMMIT'' else ''ABORT'') votes
               (send_all (decision_path (if ay then ''COMMIT'' else ''ABORT'')) txid ?ps
                  (wal_append_c (py_str txid @ '' DECISION '' @ (if ay then ''COMMIT'' else ''ABORT''))
                     wm)) of
          (Inl e, w') \<Rightarrow> (Inl e, w')
        | (Inr r, w') \<Rightarrow> (Inr (200, r), w'))"
    by (rule start_shape)
  define d where "d = (if ay then ''COMMIT'' else ''ABORT'')"
  define line where "line = py_str txid @ '' DECISION '' @ d"
  define wl where "wl = (if WAL_PATH_c (coord w) = None \<or> WAL_PATH_c (coord w) = Some [] then []
      else [WalAppend line])"
  have dd: "d = ''COMMIT'' \<or> d = ''ABORT''" by (simp add: d_def)
  have vp: "vote_path protocol = ''/prepare'' \<or> vote_path protocol = ''/can_commit''"
    by (simp add: vote_path_def)
  have u0: "\<forall>q st. nodes w q = Some st \<longrightarrow> undecided txid True st"
    using assms(1) by (simp add: fresh_def undecided_def)
  from vote_loop_inv [OF vp u0 v] obtain es1 where
    u1: "\<forall>q st. nodes w1 q = Some st \<longrightarrow> undecided txid ay st" and c1: "coord w1 = coord w"
    and t1: "trace w1 = trace w @ es1" and e1: "list_all (undecided_event txid ay) es1"
    and p1: "list_all (\<lambda>e. rpc_path e = Some (vote_path protocol)) es1"
    by blast
  have "\<exists>mid. (\<forall>q st. nodes wm q = Some st \<longrightarrow> undecided txid ay st) \<and> coord wm = coord w \<and>
      trace wm = trace w1 @ mid \<and> list_all (undecided_event txid ay) mid \<and>
      list_all (\<lambda>e. rpc_path e = Some ''/precommit'') mid"
  proof (cases "wm = w1")
    case True
    then show ?thesis using u1 c1 by (intro exI [of _ "[]"]) simp
  next
    case False
    with m have ay: ay and wm: "wm = send_all ''/precommit'' txid ?ps w1" by simp_all
    from u1 ay have "\<forall>q st. nodes w1 q = Some st \<longrightarrow> undecided txid True st" by simp
    from precommit_phase [OF this, of ?ps] send_all_trace [of "''/precommit''" txid ?ps w1]
    show ?thesis using ay wm c1 by auto
  qed
  then obtain mid where
    um: "\<forall>q st. nodes wm q = Some st \<longrightarrow> undecided txid ay st" and cm: "coord wm = coord w"
    and tm: "trace wm = trace w1 @ mid" and em: "list_all (undecided_event txid ay) mid"
    and pm: "list_all (\<lambda>e. rpc_path e = Some ''/precommit'') mid"
    by blast
  let ?w2 = "wal_append_c line wm"
  have u2: "\<forall>q st. nodes ?w2 q = Some st \<longrightarrow> settled d txid st"
    using um undecided_settled [of txid ay] by (simp add: d_def)
  have t2: "trace ?w2 = trace wm @ wl"
    by (simp add: trace_wal_append_c wl_def cm)
  let ?w3 = "send_all (decision_path d) txid ?ps ?w2"
  from send_all_settled [OF u2 dd, of txid "decision_path d" ?ps] obtain es3 where
    u3: "\<forall>q st. nodes ?w3 q = Some st \<longrightarrow> settled d txid st"
    and c3: "coord ?w3 = coord ?w2"
    and t3: "trace ?w3 = trace ?w2 @ es3"
    and e3: "list_all (agrees d txid) es3"
    and p3: "list_all (\<lambda>e. rpc_path e = Some (decision_path d)) es3"
    by auto
  let ?R = "finish pr txid d votes ?w3"
  have s': "start txid opn protocol w =
      (case ?R of (Inl e, w') \<Rightarrow> (Inl e, w') | (Inr r, w') \<Rightarrow> (Inr (200, r), w'))"
    using s by (simp add: d_def line_def)
  have sn: "snd (start txid opn protocol w) = snd ?R" by (simp add: s')
  have u4: "\<forall>q st. nodes (snd ?R) q = Some st \<longrightarrow> settled d txid st" using u3 by simp
  have "list_all (other_record txid) (map snd (TX_c (coord ?w3)))"
    using assms(2) by (simp add: unknown_to_coordinator_def c3 cm)
  then have "list_all (record_ok d txid) (map snd (TX_c (coord ?w3)))"
    by (auto simp: list_all_iff record_ok_def)
  then have r4: "list_all (record_ok d txid) (map snd (TX_c (coord (snd ?R))))"
    by (rule finish_records)
  from retry_loop_settled [OF u4 dd r4, of n] obtain es4 where
    t4: "trace (retry_loop n (snd ?R)) = trace (snd ?R) @ es4"
    and e4: "list_all (agrees d txid) es4"
    and p4: "list_all (\<lambda>e. rpc_path e \<noteq> None) es4"
    by blast
  have tr: "trace (retry_loop n (snd (start txid opn protocol w))) =
      trace w @ (es1 @ mid @ wl @ es3 @ es4)"
    by (simp add: sn t4 t3 t2 tm t1)
  have ag: "list_all (agrees d txid) (es1 @ mid @ wl @ es3 @ es4)"
    using e1 em e3 e4 undecided_event_agrees [of txid ay]
    by (auto simp: d_def wl_def list_all_iff)
  have n4: "WalAppend l \<notin> set es4" for l
    using p4 by (auto simp: list_all_iff)
  have wa: "\<forall>l. WalAppend l \<in> set (es1 @ mid @ wl @ es3 @ es4) \<longrightarrow> l = line"
    using not_WalAppend [OF p1] not_WalAppend [OF pm] not_WalAppend [OF p3] n4
    by (auto simp: wl_def)
  have wi: "(\<exists>pth. WAL_PATH_c (coord w) = Some pth \<and> pth \<noteq> []) \<longrightarrow>
      WalAppend line \<in> set (es1 @ mid @ wl @ es3 @ es4)"
    by (auto simp: wl_def)
  have rs: "\<forall>r. fst (start txid opn protocol w) = Inr (200, r) \<longrightarrow> (\<exists>votes. r = result_of txid d votes)"
    by (auto simp: s' fst_case_start split: sum.splits)
  show ?thesis
    using tr dd ag wa wi rs unfolding line_def by blast
qed

theorem agreement_for_fresh_txid_witness:
  "fresh (JStr ''t1'') (world0\<lparr>net := [Delivered, Delivered, Delivered, Dropped]\<rparr>) \<and>
   unknown_to_coordinator (JStr ''t1'')
     (world0\<lparr>net := [Delivered, Delivered, Delivered, Dropped]\<rparr>) \<and>
   (\<exists>d es.
      trace (retry_loop 2 (snd (start (JStr ''t1'') op_set None
        (world0\<lparr>net := [Delivered, Delivered, Delivered, Dropped]\<rparr>)))) =
        trace (world0\<lparr>net := [Delivered, Delivered, Delivered, Dropped]\<rparr>) @ es \<and>
      (d = ''COMMIT'' \<or> d = ''ABORT'') \<and>
      list_all (agrees d (JStr ''t1'')) es \<and>
      WalAppend (py_str (JStr ''t1'') @ '' DECISION '' @ d) \<in> set es \<and>
      (\<exists>votes. fst (start (JStr ''t1'') op_set None
           (world0\<lparr>net := [Delivered, Delivered, Delivered, Dropped]\<rparr>)) =
         Inr (200, result_of (JStr ''t1'') d votes))) \<and>
   map (\<lambda>e. (rpc_node e, rpc_path e, reached (JStr ''t1'') e))
     (trace (retry_loop 1 (snd (start (JStr ''t1'') op_set None
        (world0\<lparr>net := [Delivered, Delivered, Delivered, Dropped]\<rparr>))))) =
     [(Some ''http://p1:8001'', Some ''/prepare'', Some READY),
      (Some ''http://p2:8002'', Some ''/prepare'', Some READY),
      (None, None, None),
      (Some ''http://p1:8001'', Some ''/commit'', Some COMMITTED),
      (Some ''http://p2:8002'', Some ''/commit'', None),
      (Some ''http://p1:8001'', Some ''/commit'', Some COMMITTED),
      (Some ''http://p2:8002'', Some ''/commit'', Some COMMITTED)]"
proof -
  let ?w = "world0\<lparr>net := [Delivered, Delivered, Delivered, Dropped]\<rparr>"
  have f: "fresh (JStr ''t1'') ?w"
    by (auto simp: fresh_def world0_def tx_state_def state_of_def record_of_def boot_def
        dict_get_def dict_key_def split: if_splits)
  have u: "unknown_to_coordinator (JStr ''t1'') ?w"
    by (simp add: unknown_to_coordinator_def world0_def)
  have p: "\<exists>pth. WAL_PATH_c (coord ?w) = Some pth \<and> pth \<noteq> []"
    by (simp add: world0_def)
  have r: "fst (start (JStr ''t1'') op_set None ?w) =
      Inr (200, result_of (JStr ''t1'') ''COMMIT''
        [(''http://p1:8001'', JStr ''YES''), (''http://p2:8002'', JStr ''YES'')])"
    by code_simp
  have e: "map (\<lambda>e. (rpc_node e, rpc_path e, reached (JStr ''t1'') e))
     (trace (retry_loop 1 (snd (start (JStr ''t1'') op_set None ?w)))) =
     [(Some ''http://p1:8001'', Some ''/prepare'', Some READY),
      (Some ''http://p2:8002'', Some ''/prepare'', Some READY),
      (None, None, None),
      (Some ''http://p1:8001'', Some ''/commit'', Some COMMITTED),
      (Some ''http://p2:8002'', Some ''/commit'', None),
      (Some ''http://p1:8001'', Some ''/commit'', Some COMMITTED),
      (Some ''http://p2:8002'', Some ''/commit'', Some COMMITTED)]"
    by code_simp
  from agreement_for_fresh_txid [OF f u, of 2 op_set None] obtain d es where
    a: "trace (retry_loop 2 (snd (start (JStr ''t1'') op_set None ?w))) = trace ?w @ es"
      "d = ''COMMIT'' \<or> d = ''ABORT''" "list_all (agrees d (JStr ''t1'')) es"
      "(\<exists>pth. WAL_PATH_c (coord ?w) = Some pth \<and> pth \<noteq> []) \<longrightarrow>
         WalAppend (py_str (JStr ''t1'') @ '' DECISION '' @ d) \<in> set es"
      "\<forall>r. fst (start (JStr ''t1'') op_set None ?w) = Inr (200, r) \<longrightarrow>
         (\<exists>votes. r = result_of (JStr ''t1'') d votes)"
    by blast
  from a(5) r obtain votes where
    "fst (start (JStr ''t1'') op_set None ?w) = Inr (200, result_of (JStr ''t1'') d votes)"
    by metis
  with a p f u e show ?thesis by blast
qed

text \<open>
  The identifier \<open>t1\<close> is used twice, with reliable calls. The first run decides \<open>COMMIT\<close>
  and the participant at \<open>http://p1:8001\<close> reaches \<open>COMMITTED\<close>. In the second run, for an
  operation that fails validation, the same participant reaches \<open>ABORTED\<close> for \<open>t1\<close> and
  acknowledges the \<open>/abort\<close>, while the coordinator's WAL holds \<open>t1 DECISION COMMIT\<close>.
\<close>

theorem txid_reuse_breaks_agreement:
  "Some ''t1 DECISION COMMIT'' \<in> set (map wal_line
     (trace (snd (start (JStr ''t1'') op_del None (snd (start (JStr ''t1'') op_set None world0)))))) \<and>
   wal_c (coord (snd (start (JStr ''t1'') op_del None
     (snd (start (JStr ''t1'') op_set None world0))))) =
     [''t1 DECISION COMMIT'', ''t1 DECISION ABORT''] \<and>
   list_ex (\<lambda>e. rpc_node e = Some ''http://p1:8001'' \<and> reached (JStr ''t1'') e = Some COMMITTED \<and>
       acked (JStr ''t1'') e = Some ''/commit'')
     (trace (snd (start (JStr ''t1'') op_del None (snd (start (JStr ''t1'') op_set None world0))))) \<and>
   list_ex (\<lambda>e. rpc_node e = Some ''http://p1:8001'' \<and> reached (JStr ''t1'') e = Some ABORTED \<and>
       acked (JStr ''t1'') e = Some ''/abort'')
     (trace (snd (start (JStr ''t1'') op_del None (snd (start (JStr ''t1'') op_set None world0)))))"
  by code_simp

subsection \<open>The decision rule\<close>



subsection \<open>Durability before the reply and before the dispatch\<close>




end
